theory Spec2Isabelle
  imports Main "HOL-Library.Char_ord" "HOL-Library.List_Lexorder" "HOL-Library.Multiset"
begin

section \<open>Strings\<close>

text \<open>
  A Python \<open>str\<close> is modelled as a \<open>string\<close>, each \<open>char\<close> read as the code point of that
  number (0 to 255). Comparison of strings is the lexicographic order on code points
  (theories \<open>Char_ord\<close> and \<open>List_Lexorder\<close>), which is how Python compares \<open>str\<close> values.
\<close>

text \<open>\<open>str.isspace\<close> on one character: the white space code points below 256.\<close>

definition isspace :: "char \<Rightarrow> bool" where
  "isspace c = (c \<in> set [CHR 0x09, CHR 0x0A, CHR 0x0B, CHR 0x0C, CHR 0x0D,
                           CHR 0x1C, CHR 0x1D, CHR 0x1E, CHR 0x1F, CHR 0x20,
                           CHR 0x85, CHR 0xA0])"

text \<open>\<open>s.strip()\<close>: white space removed at both ends.\<close>

definition str_strip :: "string \<Rightarrow> string" where
  "str_strip s = rev (dropWhile isspace (rev (dropWhile isspace s)))"

text \<open>
  \<open>s.split()\<close> without a separator: the maximal runs of characters that are not white space.
  The first argument holds the current run, reversed.
\<close>

fun split_runs :: "string \<Rightarrow> string \<Rightarrow> string list" where
  "split_runs run [] = (if run = [] then [] else [rev run])"
| "split_runs run (c # cs) =
     (if isspace c then (if run = [] then split_runs [] cs else rev run # split_runs [] cs)
      else split_runs (c # run) cs)"

definition str_split_ws :: "string \<Rightarrow> string list" where
  "str_split_ws s = split_runs [] s"

text \<open>
  \<open>s.split(sep)\<close> for a separator that is not empty (the source passes \<open>'\n\n'\<close>, \<open>'\n'\<close>
  and \<open>','\<close>): the text is scanned from the left and cut at every occurrence of the
  separator that does not overlap the previous one.
\<close>

function str_split :: "string \<Rightarrow> string \<Rightarrow> string list" where
  "str_split sep [] = [[]]"
| "str_split sep (c # cs) =
     (if sep \<noteq> [] \<and> take (length sep) (c # cs) = sep
      then [] # str_split sep (drop (length sep) (c # cs))
      else (case str_split sep cs of
              [] \<Rightarrow> [[c]]
            | p # ps \<Rightarrow> (c # p) # ps))"
  by pat_completeness auto
termination
  by (relation "measure (\<lambda>(sep, s). length s)") auto

text \<open>
  \<open>s.replace(old, new)\<close> for \<open>old\<close> not empty (the source passes \<open>" -"\<close>): one scan from
  the left, every occurrence that does not overlap the previous one is replaced.
\<close>

function str_replace :: "string \<Rightarrow> string \<Rightarrow> string \<Rightarrow> string" where
  "str_replace old new [] = []"
| "str_replace old new (c # cs) =
     (if old \<noteq> [] \<and> take (length old) (c # cs) = old
      then new @ str_replace old new (drop (length old) (c # cs))
      else c # str_replace old new cs)"
  by pat_completeness auto
termination
  by (relation "measure (\<lambda>(old, new, s). length s)") auto

text \<open>\<open>sep.join(xs)\<close>.\<close>

fun str_join :: "string \<Rightarrow> string list \<Rightarrow> string" where
  "str_join sep [] = []"
| "str_join sep [x] = x"
| "str_join sep (x # y # ys) = x @ sep @ str_join sep (y # ys)"

text \<open>\<open>s.endswith(suffix)\<close>.\<close>

definition str_endswith :: "string \<Rightarrow> string \<Rightarrow> bool" where
  "str_endswith s suffix =
     (length suffix \<le> length s \<and> drop (length s - length suffix) s = suffix)"

text \<open>\<open>sub in s\<close>: \<open>sub\<close> occurs in \<open>s\<close> as a substring.\<close>

fun str_contains :: "string \<Rightarrow> string \<Rightarrow> bool" where
  "str_contains sub [] = (sub = [])"
| "str_contains sub (c # cs) = (take (length sub) (c # cs) = sub \<or> str_contains sub cs)"

text \<open>A string without leading or trailing white space.\<close>

definition trimmed :: "string \<Rightarrow> bool" where
  "trimmed s = (s = [] \<or> (\<not> isspace (hd s) \<and> \<not> isspace (last s)))"

section \<open>Errors and dictionaries\<close>

text \<open>
  The exceptions the program can raise. None of them is caught anywhere in the source, so
  each one ends the run.
\<close>

datatype py_error =
    KeyError string
  | IndexError
  | AttributeError
  | OSError
  | ParseError
  | CsvError

text \<open>
  A Python \<open>dict\<close> keeps its keys in insertion order, which is the order \<open>json.dumps\<close>
  writes them in: it is an association list with distinct keys. \<open>d[k] = v\<close> replaces the
  value of a key that is there and appends a new key at the end.
\<close>

type_synonym ('k, 'v) dict = "('k \<times> 'v) list"

fun dict_set :: "'k \<Rightarrow> 'v \<Rightarrow> ('k, 'v) dict \<Rightarrow> ('k, 'v) dict" where
  "dict_set k v [] = [(k, v)]"
| "dict_set k v ((k', v') # d) =
     (if k' = k then (k, v) # d else (k', v') # dict_set k v d)"

text \<open>\<open>d[k]\<close> on a dictionary with string keys: \<open>KeyError\<close> when the key is missing.\<close>

definition dict_get :: "(string, 'v) dict \<Rightarrow> string \<Rightarrow> py_error + 'v" where
  "dict_get d k = (case map_of d k of None \<Rightarrow> Inl (KeyError k) | Some v \<Rightarrow> Inr v)"

text \<open>\<open>xs[i]\<close> for an index that is not negative: \<open>IndexError\<close> out of range.\<close>

definition list_get :: "'a list \<Rightarrow> nat \<Rightarrow> py_error + 'a" where
  "list_get xs i = (if i < length xs then Inr (xs ! i) else Inl IndexError)"

text \<open>\<open>xs[-1]\<close>: \<open>IndexError\<close> on the empty list.\<close>

definition list_get_last :: "'a list \<Rightarrow> py_error + 'a" where
  "list_get_last xs = (if xs = [] then Inl IndexError else Inr (last xs))"

text \<open>An address of the output: a dictionary from field names to strings.\<close>

type_synonym address = "(string, string) dict"

text \<open>
  The loop of each reader, \<open>for x in xs: addresses.append(f(x))\<close>: the results in the order
  of \<open>xs\<close>, or the exception of the first element that raises one.
\<close>

fun collect :: "('a \<Rightarrow> py_error + 'b) \<Rightarrow> 'a list \<Rightarrow> py_error + 'b list" where
  "collect f [] = Inr []"
| "collect f (x # xs) =
     (case f x of
        Inl e \<Rightarrow> Inl e
      | Inr address \<Rightarrow>
          (case collect f xs of
             Inl e \<Rightarrow> Inl e
           | Inr addresses \<Rightarrow> Inr (address # addresses)))"

section \<open>The normalizer of markup entries\<close>

text \<open>\<open>parse_address\<close> (lines 8 to 29), on the dictionary of one \<open>ENT\<close> element.\<close>

definition parse_name :: "(string, string) dict \<Rightarrow> py_error + address" where
  "parse_name ent =
     (case map_of ent ''NAME'' of
        Some n \<Rightarrow>
          if str_strip n \<noteq> [] then
            (let name_parts = str_split_ws n in
             case list_get_last name_parts of
               Inl e \<Rightarrow> Inl e
             | Inr l \<Rightarrow>
                 Inr (dict_set ''name''
                        (str_join '' '' (butlast name_parts) @ '' '' @ l) []))
          else
            (case map_of ent ''COMPANY'' of
               Some c \<Rightarrow> Inr (dict_set ''organization'' (str_strip c) [])
             | None \<Rightarrow> Inr [])
      | None \<Rightarrow>
          (case map_of ent ''COMPANY'' of
             Some c \<Rightarrow> Inr (dict_set ''organization'' (str_strip c) [])
           | None \<Rightarrow> Inr []))"

definition parse_address :: "(string, string) dict \<Rightarrow> py_error + address" where
  "parse_address ent =
     (case parse_name ent of
        Inl e \<Rightarrow> Inl e
      | Inr a0 \<Rightarrow>
     (case dict_get ent ''STREET'' of
        Inl e \<Rightarrow> Inl e
      | Inr street \<Rightarrow>
     (case dict_get ent ''CITY'' of
        Inl e \<Rightarrow> Inl e
      | Inr city \<Rightarrow>
     (case dict_get ent ''STATE'' of
        Inl e \<Rightarrow> Inl e
      | Inr state \<Rightarrow>
     (case dict_get ent ''POSTAL_CODE'' of
        Inl e \<Rightarrow> Inl e
      | Inr postal \<Rightarrow>
          Inr (dict_set ''zip'' (str_replace '' -'' [] (str_strip postal))
              (dict_set ''state'' (str_strip state)
              (dict_set ''city'' (str_strip city)
              (dict_set ''street'' (str_strip street) a0)))))))))"

section \<open>The markup reader\<close>

text \<open>
  The XML parser is a library. Its result is taken as given: the \<open>ENT\<close> elements of the
  document in document order (what \<open>root.findall('.//ENT')\<close> returns), each one the list of
  its children as pairs of tag and text, where the text of an element without text is
  \<open>None\<close>.
\<close>

type_synonym xml_ent = "(string \<times> string option) list"

text \<open>
  Line 45, \<open>{child.tag: child.text for child in ent if child.text}\<close>: the children whose
  text is neither \<open>None\<close> nor empty, a later child replacing an earlier one of the same tag.
\<close>

fun entry_add :: "string \<times> string option \<Rightarrow> (string, string) dict \<Rightarrow> (string, string) dict" where
  "entry_add (tag, None) d = d"
| "entry_add (tag, Some text) d = (if text \<noteq> [] then dict_set tag text d else d)"

definition xml_entry :: "xml_ent \<Rightarrow> (string, string) dict" where
  "xml_entry ent = fold entry_add ent []"

section \<open>The tabular reader\<close>

text \<open>
  The rows are those the \<open>csv\<close> reader yields for the file (lists of cells, the header row
  first). \<open>csv.DictReader\<close> takes the first row as the field names, skips every later row
  without cells, and maps each field name to its cell; the field names beyond the end of a
  short row get the value \<open>None\<close>, the cells beyond the field names are stored under a key
  that is not a string and are left out here.
\<close>

type_synonym tsv_row = "(string, string option) dict"

definition dictreader_row :: "string list \<Rightarrow> string list \<Rightarrow> tsv_row" where
  "dictreader_row fieldnames cells =
     fold (\<lambda>(k, v) d. dict_set k v d)
       (zip fieldnames (map Some cells @ replicate (length fieldnames - length cells) None))
       []"

definition dictreader :: "string list list \<Rightarrow> tsv_row list" where
  "dictreader rows =
     (case rows of
        [] \<Rightarrow> []
      | fieldnames # rest \<Rightarrow> map (dictreader_row fieldnames) (filter (\<lambda>r. r \<noteq> []) rest))"

text \<open>
  \<open>row[k].strip()\<close>: \<open>KeyError\<close> for a column the header does not name, \<open>AttributeError\<close>
  for the \<open>None\<close> of a short row.
\<close>

definition row_strip :: "tsv_row \<Rightarrow> string \<Rightarrow> py_error + string" where
  "row_strip row k =
     (case dict_get row k of
        Inl e \<Rightarrow> Inl e
      | Inr None \<Rightarrow> Inl AttributeError
      | Inr (Some s) \<Rightarrow> Inr (str_strip s))"

text \<open>The body of the loop of \<open>read_tsv\<close> (lines 64 to 73).\<close>

definition tsv_address :: "tsv_row \<Rightarrow> py_error + address" where
  "tsv_address row =
     (case row_strip row ''organization'' of
        Inl e \<Rightarrow> Inl e
      | Inr organization \<Rightarrow>
     (case row_strip row ''address'' of
        Inl e \<Rightarrow> Inl e
      | Inr street \<Rightarrow>
     (case row_strip row ''city'' of
        Inl e \<Rightarrow> Inl e
      | Inr city \<Rightarrow>
     (case row_strip row ''state'' of
        Inl e \<Rightarrow> Inl e
      | Inr state \<Rightarrow>
     (case row_strip row ''zip'' of
        Inl e \<Rightarrow> Inl e
      | Inr zip_code \<Rightarrow>
     (case row_strip row ''first'' of
        Inl e \<Rightarrow> Inl e
      | Inr first_name \<Rightarrow>
     (case row_strip row ''last'' of
        Inl e \<Rightarrow> Inl e
      | Inr last_name \<Rightarrow>
          (let address = [(''organization'', organization), (''street'', street),
                          (''city'', city), (''state'', state), (''zip'', zip_code)]
           in if first_name \<noteq> [] \<or> last_name \<noteq> []
              then Inr (dict_set ''name'' (first_name @ '' '' @ last_name) address)
              else Inr address))))))))"

section \<open>The plain-text reader\<close>

text \<open>The body of the loop of \<open>read_txt\<close> (lines 90 to 104), on one entry of the file.\<close>

definition txt_address :: "string \<Rightarrow> py_error + address" where
  "txt_address entry =
     (let lines = str_split ''\<newline>'' entry in
      case list_get lines 0 of
        Inl e \<Rightarrow> Inl e
      | Inr line0 \<Rightarrow>
     (case list_get lines 1 of
        Inl e \<Rightarrow> Inl e
      | Inr line1 \<Rightarrow>
     (case list_get lines 3 of
        Inl e \<Rightarrow> Inl e
      | Inr line3 \<Rightarrow>
     (let city_state_zip = str_split '','' line3 in
      case list_get city_state_zip 0 of
        Inl e \<Rightarrow> Inl e
      | Inr city \<Rightarrow>
     (case list_get city_state_zip 1 of
        Inl e \<Rightarrow> Inl e
      | Inr rest \<Rightarrow>
     (let state_zip = str_split_ws rest in
      case list_get state_zip 0 of
        Inl e \<Rightarrow> Inl e
      | Inr state \<Rightarrow>
     (case list_get state_zip 1 of
        Inl e \<Rightarrow> Inl e
      | Inr zip_code \<Rightarrow>
          Inr [(''name'', str_strip line0), (''street'', str_strip line1),
               (''city'', str_strip city), (''state'', str_strip state),
               (''zip'', str_strip zip_code)])))))))"

section \<open>Files and the driver\<close>

text \<open>
  What opening and parsing a file gives, for each of the three ways the program reads one:
  the parsed \<open>ENT\<close> elements, the rows of the \<open>csv\<close> reader, the text of the file; or the
  exception raised (no such file, a document that does not parse).
\<close>

record files =
  xml_file :: "string \<Rightarrow> py_error + xml_ent list"
  tsv_file :: "string \<Rightarrow> py_error + string list list"
  txt_file :: "string \<Rightarrow> py_error + string"

text \<open>\<open>read_xml\<close> (lines 41 to 48), \<open>read_tsv\<close> (lines 60 to 74), \<open>read_txt\<close> (lines 86 to 105).\<close>

definition read_xml :: "files \<Rightarrow> string \<Rightarrow> py_error + address list" where
  "read_xml fs filename =
     (case xml_file fs filename of Inl e \<Rightarrow> Inl e | Inr ents \<Rightarrow> collect (\<lambda>ent. parse_address (xml_entry ent)) ents)"

definition read_tsv :: "files \<Rightarrow> string \<Rightarrow> py_error + address list" where
  "read_tsv fs filename =
     (case tsv_file fs filename of
        Inl e \<Rightarrow> Inl e
      | Inr rows \<Rightarrow> collect tsv_address (dictreader rows))"

definition read_txt :: "files \<Rightarrow> string \<Rightarrow> py_error + address list" where
  "read_txt fs filename =
     (case txt_file fs filename of
        Inl e \<Rightarrow> Inl e
      | Inr text \<Rightarrow> collect txt_address (str_split ''\<newline>\<newline>'' text))"

text \<open>What ends a run early: \<open>sys.exit(1)\<close> after the message of line 124, or an exception.\<close>

datatype abort = Unsupported string | Raised py_error

text \<open>The body of the loop of \<open>main\<close> (lines 117 to 125): the records of one file.\<close>

definition read_file :: "files \<Rightarrow> string \<Rightarrow> abort + address list" where
  "read_file fs file =
     (if str_endswith file ''.xml'' then
        (case read_xml fs file of Inl e \<Rightarrow> Inl (Raised e) | Inr as \<Rightarrow> Inr as)
      else if str_endswith file ''.tsv'' then
        (case read_tsv fs file of Inl e \<Rightarrow> Inl (Raised e) | Inr as \<Rightarrow> Inr as)
      else if str_endswith file ''.txt'' then
        (case read_txt fs file of Inl e \<Rightarrow> Inl (Raised e) | Inr as \<Rightarrow> Inr as)
      else Inl (Unsupported file))"

text \<open>The loop of lines 116 to 125; the second argument is \<open>all_addresses\<close> so far.\<close>

fun read_files :: "files \<Rightarrow> address list \<Rightarrow> string list \<Rightarrow> abort + address list" where
  "read_files fs all_addresses [] = Inr all_addresses"
| "read_files fs all_addresses (file # rest) =
     (case read_file fs file of
        Inl a \<Rightarrow> Inl a
      | Inr as \<Rightarrow> read_files fs (all_addresses @ as) rest)"

text \<open>
  Line 128, \<open>all_addresses.sort(key=itemgetter('zip'))\<close>: the key of a record without
  \<open>zip\<close> raises \<open>KeyError\<close>; the sort is stable and compares the keys as strings.
\<close>

definition zip_of :: "address \<Rightarrow> string" where
  "zip_of a = (case map_of a ''zip'' of None \<Rightarrow> [] | Some z \<Rightarrow> z)"

definition sort_by_zip :: "address list \<Rightarrow> py_error + address list" where
  "sort_by_zip all_addresses =
     (if \<forall>a \<in> set all_addresses. map_of a ''zip'' \<noteq> None
      then Inr (sort_key zip_of all_addresses)
      else Inl (KeyError ''zip''))"

text \<open>
  What a run leaves behind: the list of records that \<open>json.dumps\<close> serialised to the
  standard output (\<open>None\<close> when nothing was written there), what was written to the error
  stream, and the exit status. An exception that nothing catches makes the interpreter write
  its traceback to the error stream and exit with status 1.
\<close>

datatype err_text = Message string | Traceback py_error

record outcome =
  stdout :: "address list option"
  stderr :: "err_text option"
  status :: nat

text \<open>\<open>main\<close> (lines 115 to 131), on the list \<open>args.files\<close>.\<close>

definition main :: "files \<Rightarrow> string list \<Rightarrow> outcome" where
  "main fs args_files =
     (case read_files fs [] args_files of
        Inl (Unsupported file) \<Rightarrow>
          \<lparr>stdout = None,
           stderr = Some (Message (''Error: Unsupported file format '' @ file)),
           status = 1\<rparr>
      | Inl (Raised e) \<Rightarrow>
          \<lparr>stdout = None, stderr = Some (Traceback e), status = 1\<rparr>
      | Inr all_addresses \<Rightarrow>
          (case sort_by_zip all_addresses of
             Inl e \<Rightarrow> \<lparr>stdout = None, stderr = Some (Traceback e), status = 1\<rparr>
           | Inr sorted_addresses \<Rightarrow>
               \<lparr>stdout = Some sorted_addresses, stderr = None, status = 0\<rparr>))"

text \<open>Files for examples: no file at all, and one file of a given name and content.\<close>

definition no_file :: "string \<Rightarrow> py_error + 'a" where
  "no_file filename = Inl OSError"

definition one_file :: "string \<Rightarrow> 'a \<Rightarrow> string \<Rightarrow> py_error + 'a" where
  "one_file name content filename = (if filename = name then Inr content else Inl OSError)"

section \<open>Predicates for the statements\<close>

text \<open>
  The condition of line 19, \<open>'NAME' in ent and ent['NAME'].strip()\<close>, on the dictionary of
  an entry.
\<close>

definition has_name :: "(string, string) dict \<Rightarrow> bool" where
  "has_name ent =
     (case map_of ent ''NAME'' of None \<Rightarrow> False | Some n \<Rightarrow> str_strip n \<noteq> [])"

text \<open>
  A plain-text entry with fewer than four lines or with no comma in its fourth line. The
  empty entry, which a blank-line separator at the end of the file leaves behind, is one.
\<close>

definition malformed_entry :: "string \<Rightarrow> bool" where
  "malformed_entry entry =
     (let lines = str_split ''\<newline>'' entry
      in length lines < 4 \<or> CHR '','' \<notin> set (lines ! 3))"

text \<open>A string without leading white space.\<close>

definition no_leading_space :: "string \<Rightarrow> bool" where
  "no_leading_space s = (s = [] \<or> \<not> isspace (hd s))"

text \<open>
  A record with \<open>street\<close>, \<open>city\<close>, \<open>state\<close> and \<open>zip\<close>, the first three without white space
  at either end, \<open>zip\<close> without white space at its start.
\<close>

definition required_fields :: "address \<Rightarrow> bool" where
  "required_fields a =
     (case (map_of a ''street'', map_of a ''city'', map_of a ''state'', map_of a ''zip'') of
        (Some street, Some city, Some state, Some zip_code) \<Rightarrow>
          trimmed street \<and> trimmed city \<and> trimmed state \<and> no_leading_space zip_code
      | _ \<Rightarrow> False)"

text \<open>
  The records of all the files in input order: file after file, and within a file in the
  order of its entries.
\<close>

definition input_records :: "files \<Rightarrow> string list \<Rightarrow> address list" where
  "input_records fs fnames =
     concat (map (\<lambda>f. case read_file fs f of Inl ab \<Rightarrow> [] | Inr as \<Rightarrow> as) fnames)"

text \<open>
  A string without the occurrences of \<open>" -"\<close> at its end: \<open>drop_hits_rev\<close> works on the
  reversed string and drops \<open>"- "\<close> from its front as long as it is there.
\<close>

fun drop_hits_rev :: "string \<Rightarrow> string" where
  "drop_hits_rev (a # b # r) =
     (if a = CHR ''-'' \<and> b = CHR '' '' then drop_hits_rev r else a # b # r)"
| "drop_hits_rev r = r"

definition without_final_hits :: "string \<Rightarrow> string" where
  "without_final_hits s = rev (drop_hits_rev (rev s))"

section \<open>Facts about the string operations\<close>

lemma map_of_dict_set: "map_of (dict_set k v d) = (map_of d)(k \<mapsto> v)"
  by (induction d) (auto simp: fun_eq_iff)

lemma hd_strip: "str_strip s \<noteq> [] \<Longrightarrow> \<not> isspace (hd (str_strip s))"
proof -
  assume ne: "str_strip s \<noteq> []"
  define t where "t = dropWhile isspace s"
  have strip: "str_strip s = rev (dropWhile isspace (rev t))"
    by (simp add: str_strip_def t_def)
  have tne: "t \<noteq> []" using ne strip by auto
  have hdt: "\<not> isspace (hd t)" using tne unfolding t_def by (rule hd_dropWhile)
  obtain u where u: "t = str_strip s @ u"
  proof -
    have "rev t = takeWhile isspace (rev t) @ dropWhile isspace (rev t)" by simp
    then have "t = rev (dropWhile isspace (rev t)) @ rev (takeWhile isspace (rev t))"
      by (metis rev_append rev_rev_ident)
    then show ?thesis using that strip by metis
  qed
  then have "hd t = hd (str_strip s)" using ne by (metis hd_append2)
  then show ?thesis using hdt by simp
qed

lemma last_strip: "str_strip s \<noteq> [] \<Longrightarrow> \<not> isspace (last (str_strip s))"
proof -
  assume ne: "str_strip s \<noteq> []"
  then have "dropWhile isspace (rev (dropWhile isspace s)) \<noteq> []"
    by (simp add: str_strip_def)
  then have "\<not> isspace (hd (dropWhile isspace (rev (dropWhile isspace s))))"
    by (rule hd_dropWhile)
  then show ?thesis using ne by (simp add: str_strip_def last_rev)
qed

lemma trimmed_strip: "trimmed (str_strip s)"
  using hd_strip last_strip by (auto simp: trimmed_def)

lemma dropWhile_no_space: "\<forall>c \<in> set s. \<not> isspace c \<Longrightarrow> dropWhile isspace s = s"
  by (cases s) auto

lemma strip_no_space: "\<forall>c \<in> set s. \<not> isspace c \<Longrightarrow> str_strip s = s"
  by (simp add: str_strip_def dropWhile_no_space)

lemma strip_eq_Nil: "str_strip s = [] \<longleftrightarrow> (\<forall>c \<in> set s. isspace c)"
proof
  assume "str_strip s = []"
  then have "dropWhile isspace (rev (dropWhile isspace s)) = []"
    by (simp add: str_strip_def)
  then have "\<forall>c \<in> set (dropWhile isspace s). isspace c"
    by (simp add: dropWhile_eq_Nil_conv)
  then have "dropWhile isspace s = []"
    by (metis hd_dropWhile hd_in_set)
  then show "\<forall>c \<in> set s. isspace c"
    by (simp add: dropWhile_eq_Nil_conv)
next
  assume "\<forall>c \<in> set s. isspace c"
  then have a: "dropWhile isspace s = []" by (simp add: dropWhile_eq_Nil_conv)
  show "str_strip s = []" unfolding str_strip_def a by simp
qed

lemma split_runs_tokens:
  "\<forall>c \<in> set run. \<not> isspace c \<Longrightarrow> w \<in> set (split_runs run s) \<Longrightarrow>
     w \<noteq> [] \<and> (\<forall>c \<in> set w. \<not> isspace c)"
proof (induction s arbitrary: run)
  case Nil
  then show ?case by (cases "run = []") auto
next
  case (Cons c cs)
  show ?case
  proof (cases "isspace c")
    case False
    then have "w \<in> set (split_runs (c # run) cs)" using Cons.prems(2) by simp
    moreover have "\<forall>x \<in> set (c # run). \<not> isspace x" using False Cons.prems(1) by simp
    ultimately show ?thesis by (rule Cons.IH[rotated])
  next
    case True
    have nil: "\<forall>x \<in> set ([]::string). \<not> isspace x" by simp
    show ?thesis
    proof (cases "run = []")
      case True
      with \<open>isspace c\<close> have "w \<in> set (split_runs [] cs)" using Cons.prems(2) by simp
      with nil show ?thesis by (rule Cons.IH)
    next
      case False
      with \<open>isspace c\<close> have "w = rev run \<or> w \<in> set (split_runs [] cs)"
        using Cons.prems(2) by simp
      then show ?thesis
      proof
        assume "w = rev run"
        then show ?thesis using False Cons.prems(1) by simp
      next
        assume "w \<in> set (split_runs [] cs)"
        with nil show ?thesis by (rule Cons.IH)
      qed
    qed
  qed
qed

lemma split_ws_tokens:
  "w \<in> set (str_split_ws s) \<Longrightarrow> w \<noteq> [] \<and> (\<forall>c \<in> set w. \<not> isspace c)"
  unfolding str_split_ws_def using split_runs_tokens[of "[]" w s] by simp

lemma split_runs_Nil:
  "split_runs run s = [] \<longleftrightarrow> run = [] \<and> (\<forall>c \<in> set s. isspace c)"
  by (induction s arbitrary: run) simp_all

lemma split_ws_Nil: "str_split_ws s = [] \<longleftrightarrow> str_strip s = []"
  by (simp add: str_split_ws_def split_runs_Nil strip_eq_Nil)

lemma str_split_not_Nil: "str_split sep s \<noteq> []"
  by (cases s) (simp_all split: list.split)

lemma str_split_no_sep: "c \<notin> set s \<Longrightarrow> str_split [c] s = [s]"
  by (induction s) (simp_all add: eq_commute[of c])


lemma contains_drop: "str_contains sub (drop n s) \<Longrightarrow> str_contains sub s"
proof (induction s arbitrary: n)
  case Nil then show ?case by simp
next
  case (Cons c cs)
  show ?case
  proof (cases n)
    case 0 then show ?thesis using Cons.prems by simp
  next
    case (Suc m)
    then have "str_contains sub (drop m cs)" using Cons.prems by simp
    then have "str_contains sub cs" by (rule Cons.IH)
    then show ?thesis by simp
  qed
qed

lemma replace_no_occurrence:
  "\<not> str_contains old s \<Longrightarrow> str_replace old new s = s"
  by (induction s) simp_all

lemma no_space_no_occurrence:
  "\<forall>c \<in> set s. \<not> isspace c \<Longrightarrow> \<not> str_contains '' -'' s"
proof (induction s)
  case Nil then show ?case by simp
next
  case (Cons c cs)
  have "\<not> isspace c" using Cons.prems by simp
  then have "c \<noteq> CHR '' ''" by (auto simp: isspace_def)
  then have "take 2 (c # cs) \<noteq> '' -''" by (cases cs) simp_all
  moreover have "\<not> str_contains '' -'' cs" using Cons by simp
  ultimately show ?case by simp
qed

lemma replace_skip:
  "take 2 (c # cs) \<noteq> '' -'' \<Longrightarrow>
     str_replace '' -'' [] (c # cs) = c # str_replace '' -'' [] cs"
  by auto

lemma replace_hit:
  "take 2 (c # cs) = '' -'' \<Longrightarrow>
     str_replace '' -'' [] (c # cs) = str_replace '' -'' [] (drop 2 (c # cs))"
  by auto

lemma replace_head:
  "s \<noteq> [] \<Longrightarrow> \<not> isspace (hd s) \<Longrightarrow>
     str_replace '' -'' [] s \<noteq> [] \<and> hd (str_replace '' -'' [] s) = hd s"
proof (cases s)
  case Nil
  assume "s \<noteq> []" with Nil show ?thesis by simp
next
  case (Cons c cs)
  assume "\<not> isspace (hd s)"
  then have "c \<noteq> CHR '' ''" using Cons by (auto simp: isspace_def)
  then have "take 2 (c # cs) \<noteq> '' -''" by (cases cs) simp_all
  then have "str_replace '' -'' [] (c # cs) = c # str_replace '' -'' [] cs"
    by (rule replace_skip)
  then show ?thesis unfolding Cons by simp
qed

lemma replace_starts_dash:
  "str_replace '' -'' [] s = CHR ''-'' # r \<Longrightarrow> take 1 s = ''-'' \<or> take 2 s = '' -''"
proof (cases s)
  case Nil
  assume "str_replace '' -'' [] s = CHR ''-'' # r"
  with Nil show ?thesis by simp
next
  case (Cons c cs)
  assume a: "str_replace '' -'' [] s = CHR ''-'' # r"
  show ?thesis
  proof (cases "take 2 (c # cs) = '' -''")
    case True then show ?thesis using Cons by simp
  next
    case False
    then have "str_replace '' -'' [] s = c # str_replace '' -'' [] cs"
      unfolding Cons by (rule replace_skip)
    then have "c = CHR ''-''" using a by simp
    then show ?thesis using Cons by simp
  qed
qed

lemma contains_Cons: "str_contains sub cs \<Longrightarrow> str_contains sub (c # cs)"
  by simp

lemma replace_removes_all:
  "\<not> str_contains ''  -'' s \<Longrightarrow> \<not> str_contains '' -'' (str_replace '' -'' [] s)"
proof (induction "'' -''" "[] :: string" s rule: str_replace.induct)
  case 1
  then show ?case by simp
next
  case (2 c cs)
  show ?case
  proof (cases "take 2 (c # cs) = '' -''")
    case True
    have "\<not> str_contains ''  -'' (drop 2 (c # cs))"
      using "2.prems" contains_drop by blast
    then have "\<not> str_contains '' -'' (str_replace '' -'' [] (drop 2 (c # cs)))"
      using "2.hyps"(1) True by simp
    then show ?thesis unfolding replace_hit[OF True] .
  next
    case False
    have nc: "\<not> str_contains ''  -'' cs" using "2.prems" by simp
    have ih: "\<not> str_contains '' -'' (str_replace '' -'' [] cs)"
      using "2.hyps"(2) False nc by simp
    have eq: "str_replace '' -'' [] (c # cs) = c # str_replace '' -'' [] cs"
      using False by (rule replace_skip)
    have "take 2 (c # str_replace '' -'' [] cs) \<noteq> '' -''"
    proof
      assume t: "take 2 (c # str_replace '' -'' [] cs) = '' -''"
      then have c: "c = CHR '' ''" by simp
      from t obtain r where r: "str_replace '' -'' [] cs = CHR ''-'' # r"
        by (cases "str_replace '' -'' [] cs") simp_all
      then have "take 1 cs = ''-'' \<or> take 2 cs = '' -''" by (rule replace_starts_dash)
      then show False
      proof
        assume "take 1 cs = ''-''"
        then have "take 2 (c # cs) = '' -''" using c by (cases cs) simp_all
        then show False using False by simp
      next
        assume "take 2 cs = '' -''"
        then have "take 3 (c # cs) = ''  -''" using c
          by (simp add: numeral_3_eq_3 numeral_2_eq_2)
        then show False using "2.prems" by (simp add: numeral_3_eq_3 numeral_2_eq_2)
      qed
    qed
    then show ?thesis using ih eq by simp
  qed
qed

section \<open>Facts about the readers\<close>

subsection \<open>The loop of a reader\<close>

lemma collect_Inr:
  "collect f xs = Inr ys \<Longrightarrow> list_all2 (\<lambda>x y. f x = Inr y) xs ys"
proof (induction xs arbitrary: ys)
  case Nil then show ?case by simp
next
  case (Cons x xs)
  from Cons.prems obtain y ys' where y: "f x = Inr y" and r: "collect f xs = Inr ys'"
    and ys: "ys = y # ys'"
    by (auto split: sum.splits)
  from r have "list_all2 (\<lambda>x y. f x = Inr y) xs ys'" by (rule Cons.IH)
  then show ?case using y ys by simp
qed

lemma collect_member:
  assumes "collect f xs = Inr ys" and "y \<in> set ys"
  shows "\<exists>x \<in> set xs. f x = Inr y"
proof -
  have "list_all2 (\<lambda>x y. f x = Inr y) xs ys" using assms(1) by (rule collect_Inr)
  then show ?thesis using assms(2)
    by (induction rule: list_all2_induct) auto
qed

lemma collect_fails:
  "x \<in> set xs \<Longrightarrow> f x = Inl e \<Longrightarrow> \<exists>e'. collect f xs = Inl e'"
proof (induction xs)
  case Nil then show ?case by simp
next
  case (Cons a xs)
  show ?case
  proof (cases "f a")
    case (Inl e1) then show ?thesis by simp
  next
    case (Inr b)
    show ?thesis
    proof (cases "collect f xs")
      case (Inl e2) then show ?thesis using Inr by simp
    next
      case (Inr bs)
      have "x \<noteq> a" using Cons.prems(2) \<open>f a = Inr b\<close> by auto
      then have "x \<in> set xs" using Cons.prems(1) by simp
      then have "\<exists>e'. collect f xs = Inl e'" using Cons.prems(2) by (rule Cons.IH)
      then show ?thesis using Inr by simp
    qed
  qed
qed

subsection \<open>The dictionary of a markup entry\<close>

lemma map_of_entry_add:
  "map_of (entry_add child d) t = Some v \<Longrightarrow>
     (child = (t, Some v) \<and> v \<noteq> []) \<or> map_of d t = Some v"
  by (cases "(child, d)" rule: entry_add.cases) (auto simp: map_of_dict_set split: if_splits)

lemma fold_entry_add_Some:
  "map_of (fold entry_add ent d) t = Some v \<Longrightarrow>
     ((t, Some v) \<in> set ent \<and> v \<noteq> []) \<or> map_of d t = Some v"
proof (induction ent arbitrary: d)
  case Nil then show ?case by simp
next
  case (Cons child ent)
  from Cons.prems have "map_of (fold entry_add ent (entry_add child d)) t = Some v" by simp
  then have "((t, Some v) \<in> set ent \<and> v \<noteq> []) \<or> map_of (entry_add child d) t = Some v"
    by (rule Cons.IH)
  then show ?case using map_of_entry_add[of child d t v] by auto
qed

lemma xml_entry_Some:
  "map_of (xml_entry ent) t = Some v \<Longrightarrow> (t, Some v) \<in> set ent \<and> v \<noteq> []"
  unfolding xml_entry_def using fold_entry_add_Some[of ent "[]" t v] by simp

lemma entry_add_keeps:
  "map_of d t \<noteq> None \<Longrightarrow> map_of (entry_add child d) t \<noteq> None"
  by (cases "(child, d)" rule: entry_add.cases) (auto simp: map_of_dict_set)

lemma fold_entry_add_keeps:
  "map_of d t \<noteq> None \<Longrightarrow> map_of (fold entry_add ent d) t \<noteq> None"
proof (induction ent arbitrary: d)
  case Nil then show ?case by simp
next
  case (Cons child ent)
  have "map_of (entry_add child d) t \<noteq> None" using Cons.prems by (rule entry_add_keeps)
  then have "map_of (fold entry_add ent (entry_add child d)) t \<noteq> None" by (rule Cons.IH)
  then show ?case by simp
qed

lemma fold_entry_add_present:
  "(t, Some v) \<in> set ent \<Longrightarrow> v \<noteq> [] \<Longrightarrow> map_of (fold entry_add ent d) t \<noteq> None"
proof (induction ent arbitrary: d)
  case Nil then show ?case by simp
next
  case (Cons child ent)
  show ?case
  proof (cases "child = (t, Some v)")
    case True
    then have "map_of (entry_add child d) t \<noteq> None"
      using Cons.prems(2) by (simp add: map_of_dict_set)
    then show ?thesis using fold_entry_add_keeps by simp
  next
    case False
    then have "(t, Some v) \<in> set ent" using Cons.prems(1) by simp
    then show ?thesis using Cons.IH Cons.prems(2) by simp
  qed
qed

lemma xml_entry_present:
  "(t, Some v) \<in> set ent \<Longrightarrow> v \<noteq> [] \<Longrightarrow> map_of (xml_entry ent) t \<noteq> None"
  unfolding xml_entry_def by (rule fold_entry_add_present)

lemma xml_entry_skip:
  "text = None \<or> text = Some [] \<Longrightarrow>
     xml_entry (xs @ (tag, text) # ys) = xml_entry (xs @ ys)"
  by (auto simp: xml_entry_def)

lemma xml_entry_absent:
  "tag \<notin> fst ` set ent \<Longrightarrow> map_of (xml_entry ent) tag = None"
proof (rule ccontr)
  assume a: "tag \<notin> fst ` set ent" and "map_of (xml_entry ent) tag \<noteq> None"
  then obtain v where "map_of (xml_entry ent) tag = Some v" by auto
  then have "(tag, Some v) \<in> set ent" using xml_entry_Some by blast
  then show False using a by force
qed

subsection \<open>parse_address\<close>

lemma parse_name_named:
  "map_of ent ''NAME'' = Some n \<Longrightarrow> str_strip n \<noteq> [] \<Longrightarrow>
     parse_name ent =
       Inr [(''name'', str_join '' '' (butlast (str_split_ws n)) @ '' '' @ last (str_split_ws n))]"
  by (simp add: parse_name_def list_get_last_def split_ws_Nil Let_def)

lemma parse_name_unnamed:
  "\<not> has_name ent \<Longrightarrow>
     parse_name ent =
       (case map_of ent ''COMPANY'' of
          Some c \<Rightarrow> Inr [(''organization'', str_strip c)]
        | None \<Rightarrow> Inr [])"
  by (auto simp: parse_name_def has_name_def split: option.splits)

lemma parse_name_fields:
  "parse_name ent = Inr a0 \<Longrightarrow>
     (map_of a0 ''name'' \<noteq> None \<longleftrightarrow> has_name ent) \<and>
     (map_of a0 ''organization'' \<noteq> None \<longleftrightarrow> \<not> has_name ent \<and> map_of ent ''COMPANY'' \<noteq> None) \<and>
     (\<forall>k. k \<noteq> ''name'' \<and> k \<noteq> ''organization'' \<longrightarrow> map_of a0 k = None)"
proof (cases "has_name ent")
  case True
  assume a: "parse_name ent = Inr a0"
  from True obtain n where n: "map_of ent ''NAME'' = Some n" "str_strip n \<noteq> []"
    by (auto simp: has_name_def split: option.splits)
  from parse_name_named[OF n] a True show ?thesis by auto
next
  case False
  assume a: "parse_name ent = Inr a0"
  from parse_name_unnamed[OF False] a False show ?thesis
    by (auto split: option.splits)
qed

lemma parse_address_Inr:
  assumes "parse_address ent = Inr a"
  obtains a0 street city state postal where
    "parse_name ent = Inr a0"
    "map_of ent ''STREET'' = Some street"
    "map_of ent ''CITY'' = Some city"
    "map_of ent ''STATE'' = Some state"
    "map_of ent ''POSTAL_CODE'' = Some postal"
    "a = dict_set ''zip'' (str_replace '' -'' [] (str_strip postal))
           (dict_set ''state'' (str_strip state)
           (dict_set ''city'' (str_strip city)
           (dict_set ''street'' (str_strip street) a0)))"
  using assms unfolding parse_address_def dict_get_def
  by (auto split: sum.splits option.splits)

lemma parse_address_total:
  assumes "map_of ent ''STREET'' = Some street"
    "map_of ent ''CITY'' = Some city"
    "map_of ent ''STATE'' = Some state"
    "map_of ent ''POSTAL_CODE'' = Some postal"
  shows "\<exists>a. parse_address ent = Inr a"
proof -
  obtain a0 where "parse_name ent = Inr a0"
  proof (cases "has_name ent")
    case True
    then obtain n where n: "map_of ent ''NAME'' = Some n" "str_strip n \<noteq> []"
      by (auto simp: has_name_def split: option.splits)
    from parse_name_named[OF n] that show ?thesis by blast
  next
    case False
    from parse_name_unnamed[OF False] that show ?thesis
      by (cases "map_of ent ''COMPANY''") auto
  qed
  then show ?thesis using assms by (simp add: parse_address_def dict_get_def)
qed

subsection \<open>The rows of the tabular reader\<close>

lemma row_strip_Inr:
  "row_strip row k = Inr v \<Longrightarrow> \<exists>s. map_of row k = Some (Some s) \<and> v = str_strip s"
  by (auto simp: row_strip_def dict_get_def split: option.splits)

lemma row_strip_trimmed: "row_strip row k = Inr v \<Longrightarrow> trimmed v"
  using row_strip_Inr trimmed_strip by blast

lemma tsv_address_Inr:
  assumes "tsv_address row = Inr a"
  obtains organization street city state zip_code first_name last_name where
    "row_strip row ''organization'' = Inr organization"
    "row_strip row ''address'' = Inr street"
    "row_strip row ''city'' = Inr city"
    "row_strip row ''state'' = Inr state"
    "row_strip row ''zip'' = Inr zip_code"
    "row_strip row ''first'' = Inr first_name"
    "row_strip row ''last'' = Inr last_name"
    "a = (if first_name \<noteq> [] \<or> last_name \<noteq> []
          then [(''organization'', organization), (''street'', street), (''city'', city),
                (''state'', state), (''zip'', zip_code),
                (''name'', first_name @ '' '' @ last_name)]
          else [(''organization'', organization), (''street'', street), (''city'', city),
                (''state'', state), (''zip'', zip_code)])"
proof -
  from assms obtain organization where 1: "row_strip row ''organization'' = Inr organization"
    by (cases "row_strip row ''organization''") (simp_all add: tsv_address_def)
  from assms 1 obtain street where 2: "row_strip row ''address'' = Inr street"
    by (cases "row_strip row ''address''") (simp_all add: tsv_address_def)
  from assms 1 2 obtain city where 3: "row_strip row ''city'' = Inr city"
    by (cases "row_strip row ''city''") (simp_all add: tsv_address_def)
  from assms 1 2 3 obtain state where 4: "row_strip row ''state'' = Inr state"
    by (cases "row_strip row ''state''") (simp_all add: tsv_address_def)
  from assms 1 2 3 4 obtain zip_code where 5: "row_strip row ''zip'' = Inr zip_code"
    by (cases "row_strip row ''zip''") (simp_all add: tsv_address_def)
  from assms 1 2 3 4 5 obtain first_name where 6: "row_strip row ''first'' = Inr first_name"
    by (cases "row_strip row ''first''") (simp_all add: tsv_address_def)
  from assms 1 2 3 4 5 6 obtain last_name where 7: "row_strip row ''last'' = Inr last_name"
    by (cases "row_strip row ''last''") (simp_all add: tsv_address_def)
  from assms 1 2 3 4 5 6 7
  have "a = (if first_name \<noteq> [] \<or> last_name \<noteq> []
          then [(''organization'', organization), (''street'', street), (''city'', city),
                (''state'', state), (''zip'', zip_code),
                (''name'', first_name @ '' '' @ last_name)]
          else [(''organization'', organization), (''street'', street), (''city'', city),
                (''state'', state), (''zip'', zip_code)])"
    by (auto simp: tsv_address_def Let_def split: if_splits)
  with 1 2 3 4 5 6 7 that show ?thesis by blast
qed

subsection \<open>The entries of the plain-text reader\<close>

lemma list_get_Inr: "list_get xs i = Inr x \<Longrightarrow> i < length xs \<and> x = xs ! i"
  by (simp add: list_get_def split: if_splits)

lemma list_get_Inl: "list_get xs i = Inl e \<Longrightarrow> e = IndexError \<and> length xs \<le> i"
  by (simp add: list_get_def split: if_splits)

lemma txt_address_Inr:
  assumes "txt_address entry = Inr a"
  obtains line0 line1 city state zip_code rest where
    "state \<in> set (str_split_ws rest)"
    "zip_code \<in> set (str_split_ws rest)"
    "a = [(''name'', str_strip line0), (''street'', str_strip line1),
          (''city'', str_strip city), (''state'', str_strip state),
          (''zip'', str_strip zip_code)]"
proof -
  define lines where "lines = str_split ''\<newline>'' entry"
  from assms obtain line0 where 1: "list_get lines 0 = Inr line0"
    by (cases "list_get lines 0") (simp_all add: txt_address_def lines_def)
  from assms 1 obtain line1 where 2: "list_get lines 1 = Inr line1"
    by (cases "list_get lines 1") (simp_all add: txt_address_def lines_def[symmetric])
  from assms 1 2 obtain line3 where 3: "list_get lines 3 = Inr line3"
    by (cases "list_get lines 3") (simp_all add: txt_address_def lines_def[symmetric])
  define csz where "csz = str_split '','' line3"
  from assms 1 2 3 obtain city where 4: "list_get csz 0 = Inr city"
    by (cases "list_get csz 0") (simp_all add: txt_address_def lines_def[symmetric] csz_def)
  from assms 1 2 3 4 obtain rest where 5: "list_get csz 1 = Inr rest"
    by (cases "list_get csz 1")
       (simp_all add: txt_address_def lines_def[symmetric] csz_def[symmetric])
  define sz where "sz = str_split_ws rest"
  from assms 1 2 3 4 5 obtain state where 6: "list_get sz 0 = Inr state"
    by (cases "list_get sz 0")
       (simp_all add: txt_address_def lines_def[symmetric] csz_def[symmetric] sz_def)
  from assms 1 2 3 4 5 6 obtain zip_code where 7: "list_get sz 1 = Inr zip_code"
    by (cases "list_get sz 1")
       (simp_all add: txt_address_def lines_def[symmetric] csz_def[symmetric]
          sz_def[symmetric])
  from assms 1 2 3 4 5 6 7
  have a: "a = [(''name'', str_strip line0), (''street'', str_strip line1),
          (''city'', str_strip city), (''state'', str_strip state),
          (''zip'', str_strip zip_code)]"
    by (simp add: txt_address_def lines_def[symmetric] csz_def[symmetric] sz_def[symmetric])
  from 6 have "state \<in> set (str_split_ws rest)"
    using list_get_Inr[OF 6] by (simp add: sz_def)
  moreover from 7 have "zip_code \<in> set (str_split_ws rest)"
    using list_get_Inr[OF 7] by (simp add: sz_def)
  ultimately show ?thesis using a that by blast
qed

section \<open>Facts about the driver\<close>

lemma endswith_same_length:
  "str_endswith s u \<Longrightarrow> str_endswith s v \<Longrightarrow> length u = length v \<Longrightarrow> u = v"
  by (simp add: str_endswith_def)

lemma txt_not_xml: "str_endswith f ''.txt'' \<Longrightarrow> \<not> str_endswith f ''.xml''"
  using endswith_same_length[of f "''.txt''" "''.xml''"] by auto

lemma txt_not_tsv: "str_endswith f ''.txt'' \<Longrightarrow> \<not> str_endswith f ''.tsv''"
  using endswith_same_length[of f "''.txt''" "''.tsv''"] by auto

lemma read_files_Inr:
  "read_files fs acc fnames = Inr all_addresses \<Longrightarrow>
     \<exists>per. list_all2 (\<lambda>f as. read_file fs f = Inr as) fnames per \<and>
           all_addresses = acc @ concat per"
proof (induction fnames arbitrary: acc)
  case Nil
  then show ?case by simp
next
  case (Cons f fnames)
  from Cons.prems obtain as where as: "read_file fs f = Inr as"
    and r: "read_files fs (acc @ as) fnames = Inr all_addresses"
    by (auto split: sum.splits)
  from Cons.IH[OF r] obtain per where
    per: "list_all2 (\<lambda>f as. read_file fs f = Inr as) fnames per"
    and all: "all_addresses = (acc @ as) @ concat per"
    by blast
  have "list_all2 (\<lambda>f as. read_file fs f = Inr as) (f # fnames) (as # per)"
    using as per by simp
  moreover have "all_addresses = acc @ concat (as # per)" using all by simp
  ultimately show ?case by blast
qed

lemma read_files_fails:
  "f \<in> set fnames \<Longrightarrow> read_file fs f = Inl ab \<Longrightarrow>
     \<exists>ab'. read_files fs acc fnames = Inl ab'"
proof (induction fnames arbitrary: acc)
  case Nil
  then show ?case by simp
next
  case (Cons g fnames)
  show ?case
  proof (cases "read_file fs g")
    case (Inl ab1)
    then show ?thesis by simp
  next
    case (Inr as)
    then have "f \<noteq> g" using Cons.prems(2) by auto
    then have "f \<in> set fnames" using Cons.prems(1) by simp
    then have "\<exists>ab'. read_files fs (acc @ as) fnames = Inl ab'"
      using Cons.prems(2) by (rule Cons.IH)
    then show ?thesis using Inr by simp
  qed
qed

lemma main_aborted:
  "read_files fs [] fnames = Inl ab \<Longrightarrow>
     stdout (main fs fnames) = None \<and> stderr (main fs fnames) \<noteq> None \<and>
     status (main fs fnames) = 1"
  by (cases ab) (simp_all add: main_def)

lemma main_stdout:
  "stdout (main fs fnames) = Some out \<Longrightarrow>
     \<exists>all_addresses. read_files fs [] fnames = Inr all_addresses \<and>
        (\<forall>a \<in> set all_addresses. map_of a ''zip'' \<noteq> None) \<and>
        out = sort_key zip_of all_addresses"
proof (cases "read_files fs [] fnames")
  case (Inl ab)
  assume "stdout (main fs fnames) = Some out"
  then show ?thesis using main_aborted[OF Inl] by simp
next
  case (Inr all_addresses)
  assume a: "stdout (main fs fnames) = Some out"
  show ?thesis
  proof (cases "\<forall>a \<in> set all_addresses. map_of a ''zip'' \<noteq> None")
    case True
    then have "sort_by_zip all_addresses = Inr (sort_key zip_of all_addresses)"
      unfolding sort_by_zip_def by simp
    then have "stdout (main fs fnames) = Some (sort_key zip_of all_addresses)"
      using Inr by (simp add: main_def)
    then show ?thesis using a Inr True by auto
  next
    case False
    then have "sort_by_zip all_addresses = Inl (KeyError ''zip'')"
      unfolding sort_by_zip_def by simp
    then have "stdout (main fs fnames) = None"
      using Inr by (simp add: main_def)
    then show ?thesis using a by simp
  qed
qed

lemma main_status:
  "status (main fs fnames) = 0 \<longleftrightarrow> stdout (main fs fnames) \<noteq> None"
proof (cases "read_files fs [] fnames")
  case (Inl ab)
  then show ?thesis using main_aborted[OF Inl] by simp
next
  case (Inr all_addresses)
  then show ?thesis
    by (cases "sort_by_zip all_addresses") (simp_all add: main_def)
qed

lemma read_file_origin:
  assumes "read_file fs f = Inr as" and "a \<in> set as"
  shows "(\<exists>ent. parse_address (xml_entry ent) = Inr a) \<or>
         (\<exists>row. tsv_address row = Inr a) \<or>
         (\<exists>entry. txt_address entry = Inr a)"
proof -
  consider (markup) "read_xml fs f = Inr as" | (tabular) "read_tsv fs f = Inr as"
    | (plain) "read_txt fs f = Inr as"
    using assms(1) unfolding read_file_def by (auto split: if_splits sum.splits)
  then show ?thesis
  proof cases
    case markup
    then obtain ents where "collect (\<lambda>ent. parse_address (xml_entry ent)) ents = Inr as"
      unfolding read_xml_def by (auto split: sum.splits)
    from collect_member[OF this assms(2)] show ?thesis by blast
  next
    case tabular
    then obtain rows where "collect tsv_address (dictreader rows) = Inr as"
      unfolding read_tsv_def by (auto split: sum.splits)
    from collect_member[OF this assms(2)] show ?thesis by blast
  next
    case plain
    then obtain content where
      "collect txt_address (str_split ''\<newline>\<newline>'' content) = Inr as"
      unfolding read_txt_def by (auto split: sum.splits)
    from collect_member[OF this assms(2)] show ?thesis by blast
  qed
qed

lemma output_origin:
  assumes "stdout (main fs fnames) = Some out" and "a \<in> set out"
  shows "(\<exists>ent. parse_address (xml_entry ent) = Inr a) \<or>
         (\<exists>row. tsv_address row = Inr a) \<or>
         (\<exists>entry. txt_address entry = Inr a)"
proof -
  from main_stdout[OF assms(1)] obtain all_addresses where
    r: "read_files fs [] fnames = Inr all_addresses" and
    out: "out = sort_key zip_of all_addresses"
    by blast
  from read_files_Inr[OF r] obtain per where
    per: "list_all2 (\<lambda>f as. read_file fs f = Inr as) fnames per" and
    all: "all_addresses = concat per"
    by auto
  from assms(2) out all obtain as where as: "as \<in> set per" "a \<in> set as" by auto
  from as(1) per obtain f where "read_file fs f = Inr as"
    by (auto simp: list_all2_conv_all_nth in_set_conv_nth)
  from read_file_origin[OF this as(2)] show ?thesis .
qed

section \<open>Evaluation and further facts\<close>

lemmas run_defs = main_def read_file_def str_endswith_def read_xml_def read_tsv_def read_txt_def
  one_file_def no_file_def xml_entry_def parse_address_def parse_name_def dict_get_def
  list_get_last_def list_get_def str_split_ws_def str_strip_def isspace_def sort_by_zip_def
  zip_of_def Let_def dictreader_def dictreader_row_def tsv_address_def row_strip_def
  txt_address_def

lemma join_butlast_last:
  "2 \<le> length ps \<Longrightarrow> str_join sep (butlast ps) @ sep @ last ps = str_join sep ps"
proof (induction sep ps rule: str_join.induct)
  case (1 sep) then show ?case by simp
next
  case (2 sep x) then show ?case by simp
next
  case (3 sep x y ys)
  show ?case
  proof (cases ys)
    case Nil then show ?thesis by simp
  next
    case (Cons z zs)
    then have "str_join sep (butlast (y # ys)) @ sep @ last (y # ys) = str_join sep (y # ys)"
      using "3.IH" by simp
    then show ?thesis using Cons by simp
  qed
qed

lemma xml_entry_present_iff:
  "map_of (xml_entry ent) t \<noteq> None \<longleftrightarrow> (\<exists>v. (t, Some v) \<in> set ent \<and> v \<noteq> [])"
  using xml_entry_Some xml_entry_present by blast

lemma parse_address_fields:
  assumes "parse_address ent = Inr a"
  obtains a0 street city state postal where
    "parse_name ent = Inr a0"
    "map_of ent ''POSTAL_CODE'' = Some postal"
    "map_of a ''street'' = Some (str_strip street)"
    "map_of a ''city'' = Some (str_strip city)"
    "map_of a ''state'' = Some (str_strip state)"
    "map_of a ''zip'' = Some (str_replace '' -'' [] (str_strip postal))"
    "map_of a ''name'' = map_of a0 ''name''"
    "map_of a ''organization'' = map_of a0 ''organization''"
proof -
  from assms obtain a0 street city state postal where
    n: "parse_name ent = Inr a0" and p: "map_of ent ''POSTAL_CODE'' = Some postal" and
    a: "a = dict_set ''zip'' (str_replace '' -'' [] (str_strip postal))
           (dict_set ''state'' (str_strip state)
           (dict_set ''city'' (str_strip city)
           (dict_set ''street'' (str_strip street) a0)))"
    by (rule parse_address_Inr)
  have "map_of a ''street'' = Some (str_strip street)"
    "map_of a ''city'' = Some (str_strip city)"
    "map_of a ''state'' = Some (str_strip state)"
    "map_of a ''zip'' = Some (str_replace '' -'' [] (str_strip postal))"
    "map_of a ''name'' = map_of a0 ''name''"
    "map_of a ''organization'' = map_of a0 ''organization''"
    unfolding a by (simp_all add: map_of_dict_set)
  with n p that show ?thesis by blast
qed

lemma markup_name_organization:
  assumes "parse_address ent = Inr a"
  shows "(map_of a ''name'' \<noteq> None \<longleftrightarrow> has_name ent) \<and>
         (map_of a ''organization'' \<noteq> None \<longleftrightarrow>
            \<not> has_name ent \<and> map_of ent ''COMPANY'' \<noteq> None)"
proof -
  from assms obtain a0 where n: "parse_name ent = Inr a0"
    and "map_of a ''name'' = map_of a0 ''name''"
    and "map_of a ''organization'' = map_of a0 ''organization''"
    by (rule parse_address_fields)
  then show ?thesis using parse_name_fields[OF n] by simp
qed

lemma plain_fields:
  assumes "txt_address entry = Inr a"
  obtains name street city state zip_code where
    "a = [(''name'', name), (''street'', street), (''city'', city), (''state'', state),
          (''zip'', zip_code)]"
    "trimmed street" "trimmed city" "trimmed state" "trimmed zip_code"
    "\<forall>c \<in> set zip_code. \<not> isspace c"
proof -
  from assms obtain line0 line1 city state zip_code rest where
    s: "state \<in> set (str_split_ws rest)" and z: "zip_code \<in> set (str_split_ws rest)" and
    a: "a = [(''name'', str_strip line0), (''street'', str_strip line1),
          (''city'', str_strip city), (''state'', str_strip state),
          (''zip'', str_strip zip_code)]"
    by (rule txt_address_Inr)
  have "\<forall>c \<in> set zip_code. \<not> isspace c" using split_ws_tokens[OF z] by simp
  then have "\<forall>c \<in> set (str_strip zip_code). \<not> isspace c" by (simp add: strip_no_space)
  then show ?thesis using a that[of "str_strip line0" "str_strip line1" "str_strip city"
      "str_strip state" "str_strip zip_code"] trimmed_strip by blast
qed

lemma trimmed_no_leading: "trimmed s \<Longrightarrow> no_leading_space s"
  by (auto simp: trimmed_def no_leading_space_def)

lemma replace_no_leading:
  "no_leading_space s \<Longrightarrow> no_leading_space (str_replace '' -'' [] s)"
proof (cases "s = []")
  case True then show ?thesis by (simp add: no_leading_space_def)
next
  case False
  assume "no_leading_space s"
  then have h: "\<not> isspace (hd s)" using False by (simp add: no_leading_space_def)
  from replace_head[OF False h] h show ?thesis by (simp add: no_leading_space_def)
qed

lemma zip_of_eq: "map_of a ''zip'' = Some z \<Longrightarrow> zip_of a = z"
  by (simp add: zip_of_def)

lemma required_fieldsI:
  "map_of a ''street'' = Some street \<Longrightarrow> map_of a ''city'' = Some city \<Longrightarrow>
   map_of a ''state'' = Some state \<Longrightarrow> map_of a ''zip'' = Some zip_code \<Longrightarrow>
   trimmed street \<Longrightarrow> trimmed city \<Longrightarrow> trimmed state \<Longrightarrow> no_leading_space zip_code \<Longrightarrow>
   required_fields a"
  by (simp add: required_fields_def)

lemma markup_required: "parse_address ent = Inr a \<Longrightarrow> required_fields a"
proof -
  assume "parse_address ent = Inr a"
  then obtain street city state postal where
    "map_of a ''street'' = Some (str_strip street)"
    "map_of a ''city'' = Some (str_strip city)"
    "map_of a ''state'' = Some (str_strip state)"
    "map_of a ''zip'' = Some (str_replace '' -'' [] (str_strip postal))"
    by (rule parse_address_fields)
  then show ?thesis
    by (rule required_fieldsI)
       (simp_all add: trimmed_strip replace_no_leading trimmed_no_leading)
qed

lemma plain_required: "txt_address entry = Inr a \<Longrightarrow> required_fields a \<and> trimmed (zip_of a)"
proof -
  assume "txt_address entry = Inr a"
  then obtain name street city state zip_code where
    a: "a = [(''name'', name), (''street'', street), (''city'', city), (''state'', state),
          (''zip'', zip_code)]"
    and t: "trimmed street" "trimmed city" "trimmed state" "trimmed zip_code"
    by (rule plain_fields)
  have "required_fields a"
    by (rule required_fieldsI[of a street city state zip_code])
       (simp_all add: a t trimmed_no_leading)
  moreover have "zip_of a = zip_code" by (simp add: a zip_of_def)
  ultimately show ?thesis using t by simp
qed

lemma tabular_required: "tsv_address row = Inr a \<Longrightarrow> required_fields a \<and> trimmed (zip_of a)"
proof -
  assume "tsv_address row = Inr a"
  then obtain organization street city state zip_code first_name last_name where
    r: "row_strip row ''address'' = Inr street" "row_strip row ''city'' = Inr city"
       "row_strip row ''state'' = Inr state" "row_strip row ''zip'' = Inr zip_code"
    and a: "a = (if first_name \<noteq> [] \<or> last_name \<noteq> []
          then [(''organization'', organization), (''street'', street), (''city'', city),
                (''state'', state), (''zip'', zip_code),
                (''name'', first_name @ '' '' @ last_name)]
          else [(''organization'', organization), (''street'', street), (''city'', city),
                (''state'', state), (''zip'', zip_code)])"
    by (rule tsv_address_Inr)
  have t: "trimmed street" "trimmed city" "trimmed state" "trimmed zip_code"
    using r row_strip_trimmed by blast+
  have "required_fields a"
    by (rule required_fieldsI[of a street city state zip_code])
       (simp_all add: a t trimmed_no_leading)
  moreover have "zip_of a = zip_code" by (simp add: a zip_of_def)
  ultimately show ?thesis using t by simp
qed

text \<open>
  The name of a markup record when \<open>NAME\<close> has two tokens or more: the tokens joined by
  single spaces.
\<close>

lemma markup_name_rejoined:
  assumes "parse_address ent = Inr a" and "map_of ent ''NAME'' = Some n"
    and "2 \<le> length (str_split_ws n)"
  shows "map_of a ''name'' = Some (str_join '' '' (str_split_ws n))"
proof -
  have "str_split_ws n \<noteq> []" using assms(3) by auto
  then have ne: "str_strip n \<noteq> []" by (simp add: split_ws_Nil)
  from assms(1) obtain a0 where a0: "parse_name ent = Inr a0"
    and eq: "map_of a ''name'' = map_of a0 ''name''"
    by (rule parse_address_fields)
  have "a0 = [(''name'',
      str_join '' '' (butlast (str_split_ws n)) @ '' '' @ last (str_split_ws n))]"
    using parse_name_named[OF assms(2) ne] a0 by simp
  then have "map_of a ''name'' =
      Some (str_join '' '' (butlast (str_split_ws n)) @ '' '' @ last (str_split_ws n))"
    using eq by simp
  then show ?thesis using join_butlast_last[OF assms(3), of "'' ''"] by simp
qed

lemma markup_name_example:
  "parse_address [(''NAME'', ''  John   Q   Public  ''), (''STREET'', ''1 Main St''),
       (''CITY'', ''Springfield''), (''STATE'', ''IL''), (''POSTAL_CODE'', ''62701'')]
     = Inr [(''name'', ''John Q Public''), (''street'', ''1 Main St''),
            (''city'', ''Springfield''), (''state'', ''IL''), (''zip'', ''62701'')]"
  by (simp add: run_defs)

lemma unsupported_aborts:
  assumes "\<not> str_endswith f ''.xml''" and "\<not> str_endswith f ''.tsv''"
    and "\<not> str_endswith f ''.txt''"
  shows "read_file fs f = Inl (Unsupported f)"
  using assms by (simp add: read_file_def)

lemma malformed_entry_raises:
  assumes "malformed_entry entry"
  shows "txt_address entry = Inl IndexError"
proof -
  define lines where "lines = str_split ''\<newline>'' entry"
  have m: "length lines < 4 \<or> CHR '','' \<notin> set (lines ! 3)"
    using assms by (simp add: malformed_entry_def lines_def Let_def)
  show ?thesis
  proof (cases "length lines < 4")
    case True
    then show ?thesis
      by (simp add: txt_address_def lines_def[symmetric] Let_def list_get_def)
  next
    case False
    then have c: "CHR '','' \<notin> set (lines ! 3)" using m by simp
    have s: "str_split '','' (lines ! 3) = [lines ! 3]" using c by (rule str_split_no_sep)
    from False show ?thesis
      by (simp add: txt_address_def lines_def[symmetric] Let_def list_get_def s)
  qed
qed

lemma read_txt_malformed:
  assumes "txt_file fs f = Inr content"
    and "entry \<in> set (str_split ''\<newline>\<newline>'' content)"
    and "malformed_entry entry"
  shows "\<exists>e. read_txt fs f = Inl e"
proof -
  have "txt_address entry = Inl IndexError" using assms(3) by (rule malformed_entry_raises)
  with assms(2) have "\<exists>e. collect txt_address (str_split ''\<newline>\<newline>'' content) = Inl e"
    by (rule collect_fails)
  then show ?thesis using assms(1) by (simp add: read_txt_def)
qed

lemma read_files_input_records:
  assumes "read_files fs [] fnames = Inr all_addresses"
  shows "all_addresses = input_records fs fnames"
proof -
  from read_files_Inr[OF assms] obtain per where
    per: "list_all2 (\<lambda>f as. read_file fs f = Inr as) fnames per" and
    all: "all_addresses = concat per"
    by auto
  from per have "map (\<lambda>f. case read_file fs f of Inl ab \<Rightarrow> [] | Inr as \<Rightarrow> as) fnames = per"
    by (induction rule: list_all2_induct) simp_all
  then show ?thesis using all by (simp add: input_records_def)
qed

text \<open>
  The order of strings that \<open>sorted\<close> refers to: character by character, a character
  being smaller when its code point is; a proper prefix comes first.
\<close>

lemma string_order:
  "([] :: string) \<le> t"
  "\<not> (c # s \<le> [])"
  "(c # s \<le> d # t) = (of_char c < (of_char d :: nat) \<or> c = d \<and> s \<le> t)"
  by (auto simp: less_char_def)

text \<open>
  A stable sort has one result only: a list with the records of the input that is sorted
  by \<open>zip\<close> and keeps the input order among the records of each \<open>zip\<close> is the list that
  \<open>sort_key\<close> returns. So \<open>sort_key\<close> stands for the sort of line 128 whatever algorithm
  the interpreter runs.
\<close>

lemma stable_sort_unique:
  assumes "mset out = mset all_addresses" and "sorted (map zip_of out)"
    and "\<And>a. a \<in> set out \<Longrightarrow>
           filter (\<lambda>b. zip_of a = zip_of b) out
             = filter (\<lambda>b. zip_of a = zip_of b) all_addresses"
  shows "sort_key zip_of all_addresses = out"
  using assms(1) _ assms(2) by (rule properties_for_sort_key) (rule assms(3))

text \<open>
  The last character of the result of \<open>replace\<close>, and when the result is trimmed.
\<close>

lemma replace_append:
  "u = [] \<or> hd u \<noteq> CHR ''-'' \<Longrightarrow>
     str_replace '' -'' [] (t @ u) = str_replace '' -'' [] t @ str_replace '' -'' [] u"
proof (induction "'' -''" "[] :: string" t rule: str_replace.induct)
  case 1
  then show ?case by simp
next
  case (2 c cs)
  show ?case
  proof (cases "take 2 (c # cs) = '' -''")
    case True
    then have cs: "cs \<noteq> []" by auto
    have hit: "take 2 (c # (cs @ u)) = '' -''" using True cs by (cases cs) simp_all
    have d: "drop 2 (c # (cs @ u)) = drop 2 (c # cs) @ u" using cs by (cases cs) simp_all
    have "str_replace '' -'' [] (drop 2 (c # cs) @ u)
        = str_replace '' -'' [] (drop 2 (c # cs)) @ str_replace '' -'' [] u"
      using "2.hyps"(1) True "2.prems" by simp
    then show ?thesis
      using replace_hit[OF True] replace_hit[OF hit] d by simp
  next
    case False
    have miss: "take 2 (c # (cs @ u)) \<noteq> '' -''"
    proof (cases cs)
      case Nil
      then show ?thesis using "2.prems" by (cases u) auto
    next
      case (Cons x xs)
      then show ?thesis using False by simp
    qed
    have "str_replace '' -'' [] (cs @ u)
        = str_replace '' -'' [] cs @ str_replace '' -'' [] u"
      using "2.hyps"(2) False "2.prems" by simp
    then show ?thesis
      using replace_skip[OF False] replace_skip[OF miss] by simp
  qed
qed

lemma replace_final_hit:
  "str_replace '' -'' [] (t @ '' -'') = str_replace '' -'' [] t"
  using replace_append[of "'' -''" t] by simp

lemma endswith_Cons: "str_endswith cs u \<Longrightarrow> str_endswith (c # cs) u"
  by (simp add: str_endswith_def Suc_diff_le)

lemma endswith_rev: "str_endswith (rev x) u \<longleftrightarrow> take (length u) x = rev u"
proof
  assume "str_endswith (rev x) u"
  then have l: "length u \<le> length x" and d: "drop (length x - length u) (rev x) = u"
    by (simp_all add: str_endswith_def)
  have "rev (take (length u) x) = drop (length x - length u) (rev x)"
    by (simp add: rev_take)
  then have "rev (take (length u) x) = u" using d by simp
  then show "take (length u) x = rev u" by (metis rev_rev_ident)
next
  assume t: "take (length u) x = rev u"
  then have "length (take (length u) x) = length u" by simp
  then have l: "length u \<le> length x" by simp
  have "drop (length x - length u) (rev x) = rev (take (length u) x)"
    by (simp add: rev_take)
  then show "str_endswith (rev x) u" using t l by (simp add: str_endswith_def)
qed

lemma replace_last:
  "s \<noteq> [] \<Longrightarrow> \<not> str_endswith s '' -'' \<Longrightarrow>
     str_replace '' -'' [] s \<noteq> [] \<and> last (str_replace '' -'' [] s) = last s"
proof (induction "length s" arbitrary: s rule: less_induct)
  case less
  from less.prems(1) obtain c cs where s: "s = c # cs" by (cases s) auto
  show ?case
  proof (cases "take 2 (c # cs) = '' -''")
    case True
    then obtain rest where cs: "cs = CHR ''-'' # rest" and c: "c = CHR '' ''"
      by (cases cs) auto
    have d: "drop 2 (c # cs) = rest" using cs by simp
    have ne: "rest \<noteq> []" using less.prems(2) s cs c by (auto simp: str_endswith_def)
    have "\<not> str_endswith rest '' -''"
      using less.prems(2) s cs endswith_Cons by metis
    moreover have "length rest < length s" using s cs by simp
    ultimately have "str_replace '' -'' [] rest \<noteq> [] \<and>
        last (str_replace '' -'' [] rest) = last rest"
      using less.hyps ne by blast
    moreover have "last s = last rest" using s cs ne by simp
    moreover have "str_replace '' -'' [] s = str_replace '' -'' [] rest"
      using replace_hit[OF True] d s by simp
    ultimately show ?thesis by simp
  next
    case False
    have skip: "str_replace '' -'' [] s = c # str_replace '' -'' [] cs"
      using replace_skip[OF False] s by simp
    show ?thesis
    proof (cases "cs = []")
      case True
      then show ?thesis using skip s by simp
    next
      case ne: False
      have "\<not> str_endswith cs '' -''" using less.prems(2) s endswith_Cons by blast
      moreover have "length cs < length s" using s by simp
      ultimately have "str_replace '' -'' [] cs \<noteq> [] \<and>
          last (str_replace '' -'' [] cs) = last cs"
        using less.hyps ne by blast
      then show ?thesis using skip ne s by simp
    qed
  qed
qed

lemma drop_hits_rev_replace:
  "str_replace '' -'' [] (rev (drop_hits_rev r)) = str_replace '' -'' [] (rev r)"
proof (induction r rule: drop_hits_rev.induct)
  case (1 a b r)
  show ?case
  proof (cases "a = CHR ''-'' \<and> b = CHR '' ''")
    case True
    then have "rev (a # b # r) = rev r @ '' -''" by simp
    then have "str_replace '' -'' [] (rev (a # b # r)) = str_replace '' -'' [] (rev r)"
      using replace_final_hit by simp
    then show ?thesis using "1.IH" True by simp
  next
    case False
    then show ?thesis by auto
  qed
qed simp_all

lemma drop_hits_rev_done: "take 2 (drop_hits_rev r) \<noteq> ''- ''"
  by (induction r rule: drop_hits_rev.induct) auto

lemma without_final_hits_replace:
  "str_replace '' -'' [] (without_final_hits s) = str_replace '' -'' [] s"
  by (simp add: without_final_hits_def drop_hits_rev_replace)

lemma without_final_hits_done: "\<not> str_endswith (without_final_hits s) '' -''"
  using drop_hits_rev_done[of "rev s"]
  by (simp add: without_final_hits_def endswith_rev numeral_2_eq_2)

lemma without_final_hits_same:
  "\<not> str_endswith s '' -'' \<Longrightarrow> without_final_hits s = s"
proof -
  assume "\<not> str_endswith s '' -''"
  then have "take 2 (rev s) \<noteq> ''- ''"
    using endswith_rev[of "rev s" "'' -''"] by (simp add: numeral_2_eq_2)
  then have "drop_hits_rev (rev s) = rev s"
    by (cases "rev s" rule: drop_hits_rev.cases) auto
  then show ?thesis by (simp add: without_final_hits_def)
qed

lemma without_final_hits_Nil: "s = [] \<Longrightarrow> without_final_hits s = []"
  by (simp add: without_final_hits_def)

lemma markup_zip_trimmed:
  "trimmed (str_replace '' -'' [] (str_strip postal)) \<longleftrightarrow>
     without_final_hits (str_strip postal) = [] \<or>
     \<not> isspace (last (without_final_hits (str_strip postal)))"
proof -
  define s where "s = str_strip postal"
  define w where "w = without_final_hits s"
  have eq: "str_replace '' -'' [] s = str_replace '' -'' [] w"
    unfolding w_def by (simp add: without_final_hits_replace)
  show ?thesis unfolding s_def[symmetric] w_def[symmetric]
  proof (cases "w = []")
    case True
    then show "trimmed (str_replace '' -'' [] s) \<longleftrightarrow> w = [] \<or> \<not> isspace (last w)"
      using eq by (simp add: trimmed_def)
  next
    case False
    have "\<not> str_endswith w '' -''" unfolding w_def by (rule without_final_hits_done)
    with False have l: "str_replace '' -'' [] w \<noteq> [] \<and> last (str_replace '' -'' [] w) = last w"
      by (rule replace_last)
    have "s \<noteq> []" using False without_final_hits_Nil unfolding w_def by blast
    then have "\<not> isspace (hd s)" unfolding s_def by (rule hd_strip)
    with \<open>s \<noteq> []\<close> have "hd (str_replace '' -'' [] s) = hd s" using replace_head by blast
    then have "\<not> isspace (hd (str_replace '' -'' [] s))" using \<open>\<not> isspace (hd s)\<close> by simp
    then show "trimmed (str_replace '' -'' [] s) \<longleftrightarrow> w = [] \<or> \<not> isspace (last w)"
      using l eq False by (simp add: trimmed_def)
  qed
qed

section \<open>The claims\<close>

subsection \<open>Name and organization\<close>

text \<open>
  C1, as amended. A markup record has at most one of \<open>name\<close> and \<open>organization\<close>: it has
  \<open>name\<close> exactly when the entry has a \<open>NAME\<close> that is not empty after trimming, and
  \<open>organization\<close> exactly when it has no such \<open>NAME\<close> and has a \<open>COMPANY\<close> with text; so it
  has neither when the entry has neither. A plain-text record always has \<open>name\<close> and never
  \<open>organization\<close>. A tabular record always has \<open>organization\<close> (empty when the column is), and
  has \<open>name\<close> as well exactly when \<open>first\<close> or \<open>last\<close> is not empty after trimming.
\<close>

theorem name_or_organization:
  "(parse_address (xml_entry ent) = Inr a \<longrightarrow>
      \<not> (map_of a ''name'' \<noteq> None \<and> map_of a ''organization'' \<noteq> None) \<and>
      (map_of a ''name'' \<noteq> None \<longleftrightarrow> has_name (xml_entry ent)) \<and>
      (map_of a ''organization'' \<noteq> None \<longleftrightarrow>
         \<not> has_name (xml_entry ent) \<and> map_of (xml_entry ent) ''COMPANY'' \<noteq> None)) \<and>
   (txt_address entry = Inr b \<longrightarrow>
      map_of b ''name'' \<noteq> None \<and> map_of b ''organization'' = None) \<and>
   (tsv_address row = Inr c \<longrightarrow>
      map_of c ''organization'' \<noteq> None \<and>
      (map_of c ''name'' \<noteq> None \<longleftrightarrow>
         row_strip row ''first'' \<noteq> Inr [] \<or> row_strip row ''last'' \<noteq> Inr []))"
proof (intro conjI impI)
  assume p: "parse_address (xml_entry ent) = Inr a"
  from markup_name_organization[OF p]
  show "\<not> (map_of a ''name'' \<noteq> None \<and> map_of a ''organization'' \<noteq> None)"
    and "(map_of a ''name'' \<noteq> None) = has_name (xml_entry ent)"
    and "(map_of a ''organization'' \<noteq> None) =
           (\<not> has_name (xml_entry ent) \<and> map_of (xml_entry ent) ''COMPANY'' \<noteq> None)"
    by blast+
next
  assume "txt_address entry = Inr b"
  then obtain name street city state zip_code where
    "b = [(''name'', name), (''street'', street), (''city'', city), (''state'', state),
          (''zip'', zip_code)]"
    by (rule plain_fields)
  then show "map_of b ''name'' \<noteq> None" and "map_of b ''organization'' = None"
    by simp_all
next
  assume t: "tsv_address row = Inr c"
  from t show "map_of c ''organization'' \<noteq> None"
    by (rule tsv_address_Inr) (simp split: if_splits)
  from t show "(map_of c ''name'' \<noteq> None) =
      (row_strip row ''first'' \<noteq> Inr [] \<or> row_strip row ''last'' \<noteq> Inr [])"
    by (rule tsv_address_Inr) (simp split: if_splits)
qed

text \<open>
  The three readers on one record each: a markup entry with a blank \<open>NAME\<close> and a
  \<open>COMPANY\<close>, a plain-text entry, and a tabular row with a first name only.
\<close>

theorem name_or_organization_witness:
  "parse_address (xml_entry [(''NAME'', Some ''  ''), (''COMPANY'', Some ''Acme Corp''),
       (''STREET'', Some ''1 Main St''), (''CITY'', Some ''Springfield''),
       (''STATE'', Some ''IL''), (''POSTAL_CODE'', Some ''62701'')])
     = Inr [(''organization'', ''Acme Corp''), (''street'', ''1 Main St''),
            (''city'', ''Springfield''), (''state'', ''IL''), (''zip'', ''62701'')] \<and>
   txt_address ''Jane Roe\<newline>2 Oak Ave\<newline>Suite 5\<newline>Portland, OR 97201''
     = Inr [(''name'', ''Jane Roe''), (''street'', ''2 Oak Ave''), (''city'', ''Portland''),
            (''state'', ''OR''), (''zip'', ''97201'')] \<and>
   tsv_address [(''first'', Some ''John''), (''last'', Some ''''), (''organization'', Some ''''),
       (''address'', Some ''3 Elm Rd''), (''city'', Some ''Salem''), (''state'', Some ''OR''),
       (''zip'', Some ''97301'')]
     = Inr [(''organization'', ''''), (''street'', ''3 Elm Rd''), (''city'', ''Salem''),
            (''state'', ''OR''), (''zip'', ''97301''), (''name'', ''John '')] \<and>
   \<not> has_name (xml_entry [(''NAME'', Some ''  ''), (''COMPANY'', Some ''Acme Corp''),
       (''STREET'', Some ''1 Main St''), (''CITY'', Some ''Springfield''),
       (''STATE'', Some ''IL''), (''POSTAL_CODE'', Some ''62701'')])"
  using name_or_organization
    [of "[(''NAME'', Some ''  ''), (''COMPANY'', Some ''Acme Corp''),
          (''STREET'', Some ''1 Main St''), (''CITY'', Some ''Springfield''),
          (''STATE'', Some ''IL''), (''POSTAL_CODE'', Some ''62701'')]"
        "[(''organization'', ''Acme Corp''), (''street'', ''1 Main St''),
          (''city'', ''Springfield''), (''state'', ''IL''), (''zip'', ''62701'')]"
        "''Jane Roe\<newline>2 Oak Ave\<newline>Suite 5\<newline>Portland, OR 97201''"
        "[(''name'', ''Jane Roe''), (''street'', ''2 Oak Ave''), (''city'', ''Portland''),
          (''state'', ''OR''), (''zip'', ''97201'')]"
        "[(''first'', Some ''John''), (''last'', Some ''''), (''organization'', Some ''''),
          (''address'', Some ''3 Elm Rd''), (''city'', Some ''Salem''), (''state'', Some ''OR''),
          (''zip'', Some ''97301'')]"
        "[(''organization'', ''''), (''street'', ''3 Elm Rd''), (''city'', ''Salem''),
          (''state'', ''OR''), (''zip'', ''97301''), (''name'', ''John '')]"]
  by (simp add: run_defs has_name_def)

text \<open>
  C1 as stated fails: the record of a tabular row that names a person and an organization
  has both fields.
\<close>

theorem tabular_record_with_both_counterexample:
  "stdout (main \<lparr>xml_file = no_file,
                  tsv_file = one_file ''people.tsv''
                    [[''first'', ''last'', ''organization'', ''address'', ''city'', ''state'',
                      ''zip''],
                     [''John'', ''Doe'', ''Acme Corp'', ''1 Main St'', ''Springfield'', ''IL'',
                      ''62701'']],
                  txt_file = no_file\<rparr> [''people.tsv''])
   = Some [[(''organization'', ''Acme Corp''), (''street'', ''1 Main St''),
            (''city'', ''Springfield''), (''state'', ''IL''), (''zip'', ''62701''),
            (''name'', ''John Doe'')]]"
  by (simp add: run_defs)

subsection \<open>Normalization of the zip\<close>

text \<open>
  C2, as amended. The \<open>zip\<close> of a markup record is the trimmed \<open>POSTAL_CODE\<close> after one
  pass of \<open>replace\<close> that removes the occurrences of \<open>" -"\<close> found from left to right; no
  \<open>" -"\<close> is left when the trimmed value has no \<open>" -"\<close> preceded by another space. So
  \<open>"12345 -6789"\<close> yields \<open>"123456789"\<close> and \<open>"12345-6789"\<close> is unchanged. The \<open>zip\<close> of a
  plain-text record has no \<open>" -"\<close>. The \<open>zip\<close> of a tabular record is the trimmed \<open>zip\<close>
  column: that reader removes nothing else.
\<close>

theorem zip_normalization:
  "(parse_address ent = Inr a \<longrightarrow>
      (\<exists>postal. map_of ent ''POSTAL_CODE'' = Some postal \<and>
         map_of a ''zip'' = Some (str_replace '' -'' [] (str_strip postal)) \<and>
         (\<not> str_contains ''  -'' (str_strip postal) \<longrightarrow> \<not> str_contains '' -'' (zip_of a)))) \<and>
   (txt_address entry = Inr b \<longrightarrow> \<not> str_contains '' -'' (zip_of b)) \<and>
   (tsv_address row = Inr c \<longrightarrow> row_strip row ''zip'' = Inr (zip_of c)) \<and>
   str_replace '' -'' [] ''12345 -6789'' = ''123456789'' \<and>
   str_replace '' -'' [] ''12345-6789'' = ''12345-6789''"
proof (intro conjI impI)
  assume "parse_address ent = Inr a"
  then obtain postal where p: "map_of ent ''POSTAL_CODE'' = Some postal"
    and z: "map_of a ''zip'' = Some (str_replace '' -'' [] (str_strip postal))"
    by (rule parse_address_fields)
  have "\<not> str_contains ''  -'' (str_strip postal) \<longrightarrow> \<not> str_contains '' -'' (zip_of a)"
    using replace_removes_all[of "str_strip postal"] zip_of_eq[OF z] by simp
  with p z show "\<exists>postal. map_of ent ''POSTAL_CODE'' = Some postal \<and>
         map_of a ''zip'' = Some (str_replace '' -'' [] (str_strip postal)) \<and>
         (\<not> str_contains ''  -'' (str_strip postal) \<longrightarrow> \<not> str_contains '' -'' (zip_of a))"
    by blast
next
  assume "txt_address entry = Inr b"
  then obtain name street city state zip_code where
    b: "b = [(''name'', name), (''street'', street), (''city'', city), (''state'', state),
          (''zip'', zip_code)]"
    and ns: "\<forall>c \<in> set zip_code. \<not> isspace c"
    by (rule plain_fields)
  have "zip_of b = zip_code" unfolding b by (simp add: zip_of_def)
  then show "\<not> str_contains '' -'' (zip_of b)" using no_space_no_occurrence[OF ns] by simp
next
  assume "tsv_address row = Inr c"
  then show "row_strip row ''zip'' = Inr (zip_of c)"
    by (rule tsv_address_Inr) (simp add: zip_of_def split: if_splits)
next
  show "str_replace '' -'' [] ''12345 -6789'' = ''123456789''" by simp
  show "str_replace '' -'' [] ''12345-6789'' = ''12345-6789''" by simp
qed

text \<open>
  The three readers on one record each: a markup entry with the postal code
  \<open>" 12345 -6789 "\<close>, a plain-text entry, and a tabular row whose \<open>zip\<close> is \<open>"12345-6789 "\<close>.
\<close>

theorem zip_normalization_witness:
  "parse_address [(''STREET'', ''1 Main St''), (''CITY'', ''Springfield''), (''STATE'', ''IL''),
       (''POSTAL_CODE'', '' 12345 -6789 '')]
     = Inr [(''street'', ''1 Main St''), (''city'', ''Springfield''), (''state'', ''IL''),
            (''zip'', ''123456789'')] \<and>
   \<not> str_contains ''  -'' (str_strip '' 12345 -6789 '') \<and>
   \<not> str_contains '' -'' ''123456789'' \<and>
   txt_address ''Jane Roe\<newline>2 Oak Ave\<newline>Suite 5\<newline>Portland, OR 97201''
     = Inr [(''name'', ''Jane Roe''), (''street'', ''2 Oak Ave''), (''city'', ''Portland''),
            (''state'', ''OR''), (''zip'', ''97201'')] \<and>
   tsv_address [(''first'', Some ''John''), (''last'', Some ''Doe''), (''organization'', Some ''''),
       (''address'', Some ''3 Elm Rd''), (''city'', Some ''Salem''), (''state'', Some ''OR''),
       (''zip'', Some ''12345-6789 '')]
     = Inr [(''organization'', ''''), (''street'', ''3 Elm Rd''), (''city'', ''Salem''),
            (''state'', ''OR''), (''zip'', ''12345-6789''), (''name'', ''John Doe'')]"
  using zip_normalization
    [of "[(''STREET'', ''1 Main St''), (''CITY'', ''Springfield''), (''STATE'', ''IL''),
          (''POSTAL_CODE'', '' 12345 -6789 '')]"
        "[(''street'', ''1 Main St''), (''city'', ''Springfield''), (''state'', ''IL''),
          (''zip'', ''123456789'')]"
        "''Jane Roe\<newline>2 Oak Ave\<newline>Suite 5\<newline>Portland, OR 97201''"
        "[(''name'', ''Jane Roe''), (''street'', ''2 Oak Ave''), (''city'', ''Portland''),
          (''state'', ''OR''), (''zip'', ''97201'')]"
        "[(''first'', Some ''John''), (''last'', Some ''Doe''), (''organization'', Some ''''),
          (''address'', Some ''3 Elm Rd''), (''city'', Some ''Salem''), (''state'', Some ''OR''),
          (''zip'', Some ''12345-6789 '')]"
        "[(''organization'', ''''), (''street'', ''3 Elm Rd''), (''city'', ''Salem''),
          (''state'', ''OR''), (''zip'', ''12345-6789''), (''name'', ''John Doe'')]"]
  by (simp add: run_defs)

text \<open>
  C2 as stated fails: a \<open>" -"\<close> in the \<open>zip\<close> column of a tabular row stays in the output,
  and the single pass over the markup postal code \<open>"12345  --6789"\<close> leaves a \<open>" -"\<close> behind.
\<close>

theorem zip_with_space_dash_counterexample:
  "stdout (main \<lparr>xml_file = one_file ''a.xml''
                    [[(''COMPANY'', Some ''Acme Corp''), (''STREET'', Some ''1 Main St''),
                      (''CITY'', Some ''Springfield''), (''STATE'', Some ''IL''),
                      (''POSTAL_CODE'', Some ''12345  --6789'')]],
                  tsv_file = one_file ''people.tsv''
                    [[''first'', ''last'', ''organization'', ''address'', ''city'', ''state'',
                      ''zip''],
                     [''John'', ''Doe'', '''', ''3 Elm Rd'', ''Salem'', ''OR'', ''97301 -1234'']],
                  txt_file = no_file\<rparr> [''a.xml'', ''people.tsv''])
   = Some [[(''organization'', ''Acme Corp''), (''street'', ''1 Main St''),
            (''city'', ''Springfield''), (''state'', ''IL''), (''zip'', ''12345 -6789'')],
           [(''organization'', ''''), (''street'', ''3 Elm Rd''), (''city'', ''Salem''),
            (''state'', ''OR''), (''zip'', ''97301 -1234''), (''name'', ''John Doe'')]] \<and>
   str_contains '' -'' ''12345 -6789'' \<and> str_contains '' -'' ''97301 -1234''"
  by (simp add: run_defs)

subsection \<open>The name of a markup record\<close>

text \<open>
  C3 fails on a \<open>NAME\<close> of one token: \<open>name_parts[:-1]\<close> is then empty, its join is the
  empty string, and line 21 still appends the space before the last token. The record of
  the entry with the \<open>NAME\<close> \<open>"John"\<close> has the name \<open>" John"\<close>, with a leading space.
\<close>

theorem single_token_name_leading_space:
  "stdout (main \<lparr>xml_file = one_file ''a.xml''
                    [[(''NAME'', Some ''John''), (''STREET'', Some ''1 Main St''),
                      (''CITY'', Some ''Springfield''), (''STATE'', Some ''IL''),
                      (''POSTAL_CODE'', Some ''62701'')]],
                  tsv_file = no_file, txt_file = no_file\<rparr> [''a.xml''])
   = Some [[(''name'', '' John''), (''street'', ''1 Main St''), (''city'', ''Springfield''),
            (''state'', ''IL''), (''zip'', ''62701'')]] \<and>
   str_join '' '' (str_split_ws ''John'') = ''John''"
  by (simp add: run_defs)

subsection \<open>Order of the output\<close>

text \<open>
  C4. On a run that succeeds, the output is sorted in ascending order of the \<open>zip\<close>
  strings, it has the records of the input and no others, and the records of any one
  \<open>zip\<close> are in their input order.
\<close>

theorem output_sorted_stable:
  assumes "status (main fs fnames) = 0"
  shows "\<exists>out. stdout (main fs fnames) = Some out \<and>
           sorted (map zip_of out) \<and>
           (\<forall>a \<in> set out. map_of a ''zip'' = Some (zip_of a)) \<and>
           mset out = mset (input_records fs fnames) \<and>
           (\<forall>z. filter (\<lambda>a. zip_of a = z) out
                = filter (\<lambda>a. zip_of a = z) (input_records fs fnames))"
proof -
  from assms obtain out where out: "stdout (main fs fnames) = Some out"
    using main_status[of fs fnames] by auto
  from main_stdout[OF out] obtain all_addresses where
    r: "read_files fs [] fnames = Inr all_addresses" and
    z: "\<forall>a \<in> set all_addresses. map_of a ''zip'' \<noteq> None" and
    s: "out = sort_key zip_of all_addresses"
    by blast
  have i: "all_addresses = input_records fs fnames" using r by (rule read_files_input_records)
  have "sorted (map zip_of out)" unfolding s by (rule sorted_sort_key)
  moreover have "\<forall>a \<in> set out. map_of a ''zip'' = Some (zip_of a)"
    unfolding s using z by (auto simp: zip_of_def)
  moreover have "mset out = mset (input_records fs fnames)"
    unfolding s i[symmetric] by simp
  moreover have "\<forall>z. filter (\<lambda>a. zip_of a = z) out
                = filter (\<lambda>a. zip_of a = z) (input_records fs fnames)"
    unfolding s i[symmetric] by (simp add: sort_key_stable)
  ultimately show ?thesis using out by blast
qed

text \<open>
  A markup file with the zips \<open>"9999"\<close> and \<open>"12345"\<close>, then a plain-text file with the
  zips \<open>"12345"\<close> and \<open>"02134"\<close>: the two records of \<open>"12345"\<close> keep their input order.
\<close>

theorem output_sorted_stable_witness:
  "status (main \<lparr>xml_file = one_file ''a.xml''
                    [[(''NAME'', Some ''Ann Lee''), (''STREET'', Some ''1 Main St''),
                      (''CITY'', Some ''Springfield''), (''STATE'', Some ''IL''),
                      (''POSTAL_CODE'', Some ''9999'')],
                     [(''COMPANY'', Some ''Acme Corp''), (''STREET'', Some ''4 Pine St''),
                      (''CITY'', Some ''Dover''), (''STATE'', Some ''DE''),
                      (''POSTAL_CODE'', Some ''12345'')]],
                  tsv_file = no_file,
                  txt_file = one_file ''b.txt''
                    ''Jane Roe\<newline>2 Oak Ave\<newline>Suite 5\<newline>Portland, OR 12345\<newline>\<newline>Bob Ray\<newline>7 Bay Rd\<newline>Apt 1\<newline>Boston, MA 02134''\<rparr>
           [''a.xml'', ''b.txt'']) = 0 \<and>
   stdout (main \<lparr>xml_file = one_file ''a.xml''
                    [[(''NAME'', Some ''Ann Lee''), (''STREET'', Some ''1 Main St''),
                      (''CITY'', Some ''Springfield''), (''STATE'', Some ''IL''),
                      (''POSTAL_CODE'', Some ''9999'')],
                     [(''COMPANY'', Some ''Acme Corp''), (''STREET'', Some ''4 Pine St''),
                      (''CITY'', Some ''Dover''), (''STATE'', Some ''DE''),
                      (''POSTAL_CODE'', Some ''12345'')]],
                  tsv_file = no_file,
                  txt_file = one_file ''b.txt''
                    ''Jane Roe\<newline>2 Oak Ave\<newline>Suite 5\<newline>Portland, OR 12345\<newline>\<newline>Bob Ray\<newline>7 Bay Rd\<newline>Apt 1\<newline>Boston, MA 02134''\<rparr>
           [''a.xml'', ''b.txt''])
     = Some [[(''name'', ''Bob Ray''), (''street'', ''7 Bay Rd''), (''city'', ''Boston''),
              (''state'', ''MA''), (''zip'', ''02134'')],
             [(''organization'', ''Acme Corp''), (''street'', ''4 Pine St''),
              (''city'', ''Dover''), (''state'', ''DE''), (''zip'', ''12345'')],
             [(''name'', ''Jane Roe''), (''street'', ''2 Oak Ave''), (''city'', ''Portland''),
              (''state'', ''OR''), (''zip'', ''12345'')],
             [(''name'', ''Ann Lee''), (''street'', ''1 Main St''), (''city'', ''Springfield''),
              (''state'', ''IL''), (''zip'', ''9999'')]] \<and>
   ''02134'' < ''12345'' \<and> ''12345'' < ''9999''"
  using output_sorted_stable
    [of "\<lparr>xml_file = one_file ''a.xml''
            [[(''NAME'', Some ''Ann Lee''), (''STREET'', Some ''1 Main St''),
              (''CITY'', Some ''Springfield''), (''STATE'', Some ''IL''),
              (''POSTAL_CODE'', Some ''9999'')],
             [(''COMPANY'', Some ''Acme Corp''), (''STREET'', Some ''4 Pine St''),
              (''CITY'', Some ''Dover''), (''STATE'', Some ''DE''),
              (''POSTAL_CODE'', Some ''12345'')]],
          tsv_file = no_file,
          txt_file = one_file ''b.txt''
            ''Jane Roe\<newline>2 Oak Ave\<newline>Suite 5\<newline>Portland, OR 12345\<newline>\<newline>Bob Ray\<newline>7 Bay Rd\<newline>Apt 1\<newline>Boston, MA 02134''\<rparr>"
        "[''a.xml'', ''b.txt'']"]
  by (simp add: run_defs)

subsection \<open>An empty NAME element\<close>

text \<open>
  C5. An entry with an empty \<open>NAME\<close> element (its text \<open>None\<close> or the empty string) gives
  the same result as the entry without that element; when the entry has no other \<open>NAME\<close>
  element, the record has no \<open>name\<close> and its \<open>organization\<close> is the trimmed \<open>COMPANY\<close>, if
  there is one.
\<close>

theorem empty_name_as_absent:
  "parse_address (xml_entry (xs @ (''NAME'', None) # ys)) = parse_address (xml_entry (xs @ ys)) \<and>
   parse_address (xml_entry (xs @ (''NAME'', Some []) # ys))
     = parse_address (xml_entry (xs @ ys)) \<and>
   (''NAME'' \<notin> fst ` set (xs @ ys) \<and> parse_address (xml_entry (xs @ ys)) = Inr a \<longrightarrow>
      map_of a ''name'' = None \<and>
      map_of a ''organization'' = map_option str_strip (map_of (xml_entry (xs @ ys)) ''COMPANY''))"
proof (intro conjI impI)
  show "parse_address (xml_entry (xs @ (''NAME'', None) # ys))
      = parse_address (xml_entry (xs @ ys))"
    by (simp add: xml_entry_skip)
  show "parse_address (xml_entry (xs @ (''NAME'', Some []) # ys))
      = parse_address (xml_entry (xs @ ys))"
    by (simp add: xml_entry_skip)
next
  assume h: "''NAME'' \<notin> fst ` set (xs @ ys) \<and> parse_address (xml_entry (xs @ ys)) = Inr a"
  define ent where "ent = xml_entry (xs @ ys)"
  have "map_of ent ''NAME'' = None" unfolding ent_def using h by (simp add: xml_entry_absent)
  then have nn: "\<not> has_name ent" by (simp add: has_name_def)
  from h obtain a0 where a0: "parse_name ent = Inr a0"
    and n: "map_of a ''name'' = map_of a0 ''name''"
    and o: "map_of a ''organization'' = map_of a0 ''organization''"
    unfolding ent_def[symmetric] using parse_address_fields[of ent a] by metis
  have "map_of a0 ''name'' = None" using parse_name_fields[OF a0] nn by simp
  then show "map_of a ''name'' = None" using n by simp
  have "map_of a0 ''organization'' = map_option str_strip (map_of ent ''COMPANY'')"
    using parse_name_unnamed[OF nn] a0 by (cases "map_of ent ''COMPANY''") auto
  then show "map_of a ''organization''
      = map_option str_strip (map_of (xml_entry (xs @ ys)) ''COMPANY'')"
    using o by (simp add: ent_def)
qed

text \<open>An entry of an organization, with and without an empty \<open>NAME\<close> element.\<close>

theorem empty_name_as_absent_witness:
  "parse_address (xml_entry ([(''COMPANY'', Some '' Acme Corp '')] @ (''NAME'', None) #
       [(''STREET'', Some ''1 Main St''), (''CITY'', Some ''Springfield''),
        (''STATE'', Some ''IL''), (''POSTAL_CODE'', Some ''62701'')]))
     = Inr [(''organization'', ''Acme Corp''), (''street'', ''1 Main St''),
            (''city'', ''Springfield''), (''state'', ''IL''), (''zip'', ''62701'')] \<and>
   parse_address (xml_entry ([(''COMPANY'', Some '' Acme Corp '')] @
       [(''STREET'', Some ''1 Main St''), (''CITY'', Some ''Springfield''),
        (''STATE'', Some ''IL''), (''POSTAL_CODE'', Some ''62701'')]))
     = Inr [(''organization'', ''Acme Corp''), (''street'', ''1 Main St''),
            (''city'', ''Springfield''), (''state'', ''IL''), (''zip'', ''62701'')] \<and>
   ''NAME'' \<notin> fst ` set ([(''COMPANY'', Some '' Acme Corp '')] @
       [(''STREET'', Some ''1 Main St''), (''CITY'', Some ''Springfield''),
        (''STATE'', Some ''IL''), (''POSTAL_CODE'', Some ''62701'')])"
  using empty_name_as_absent
    [of "[(''COMPANY'', Some '' Acme Corp '')]"
        "[(''STREET'', Some ''1 Main St''), (''CITY'', Some ''Springfield''),
          (''STATE'', Some ''IL''), (''POSTAL_CODE'', Some ''62701'')]"
        "[(''organization'', ''Acme Corp''), (''street'', ''1 Main St''),
          (''city'', ''Springfield''), (''state'', ''IL''), (''zip'', ''62701'')]"]
  by (simp add: run_defs)

subsection \<open>Malformed plain-text entries\<close>

text \<open>
  C6. When one of the files is a plain-text file with a malformed entry (fewer than four
  lines, which includes the empty entry after a blank-line separator at the end of the
  file, or a fourth line without a comma), the run fails: nothing is written to the
  standard output, the error stream gets the report, and the exit status is not zero.
\<close>

theorem malformed_plain_text_fails:
  assumes "f \<in> set fnames" and "str_endswith f ''.txt''"
    and "txt_file fs f = Inr content"
    and "entry \<in> set (str_split ''\<newline>\<newline>'' content)"
    and "malformed_entry entry"
  shows "stdout (main fs fnames) = None \<and> stderr (main fs fnames) \<noteq> None \<and>
         status (main fs fnames) \<noteq> 0"
proof -
  obtain e where "read_txt fs f = Inl e"
    using read_txt_malformed[OF assms(3-5)] by blast
  then have "read_file fs f = Inl (Raised e)"
    using assms(2) txt_not_xml txt_not_tsv by (simp add: read_file_def)
  with assms(1) obtain ab where "read_files fs [] fnames = Inl ab"
    using read_files_fails by blast
  from main_aborted[OF this] show ?thesis by simp
qed

text \<open>
  Three runs: a plain-text file whose fourth line has no comma, after a markup file that
  reads well; an entry of three lines; and a file that ends with a blank-line separator,
  whose last entry is empty.
\<close>

theorem malformed_plain_text_fails_witness:
  "main \<lparr>xml_file = one_file ''a.xml''
            [[(''COMPANY'', Some ''Acme Corp''), (''STREET'', Some ''1 Main St''),
              (''CITY'', Some ''Springfield''), (''STATE'', Some ''IL''),
              (''POSTAL_CODE'', Some ''62701'')]],
          tsv_file = no_file,
          txt_file = one_file ''b.txt''
            ''Jane Roe\<newline>2 Oak Ave\<newline>Suite 5\<newline>Portland OR 97201''\<rparr>
     [''a.xml'', ''b.txt'']
     = \<lparr>stdout = None, stderr = Some (Traceback IndexError), status = 1\<rparr> \<and>
   malformed_entry ''Jane Roe\<newline>2 Oak Ave\<newline>Suite 5\<newline>Portland OR 97201'' \<and>
   main \<lparr>xml_file = no_file, tsv_file = no_file,
          txt_file = one_file ''b.txt'' ''Jane Roe\<newline>2 Oak Ave\<newline>Portland, OR 97201''\<rparr>
     [''b.txt'']
     = \<lparr>stdout = None, stderr = Some (Traceback IndexError), status = 1\<rparr> \<and>
   malformed_entry ''Jane Roe\<newline>2 Oak Ave\<newline>Portland, OR 97201'' \<and>
   main \<lparr>xml_file = no_file, tsv_file = no_file,
          txt_file = one_file ''b.txt''
            ''Jane Roe\<newline>2 Oak Ave\<newline>Suite 5\<newline>Portland, OR 97201\<newline>\<newline>''\<rparr>
     [''b.txt'']
     = \<lparr>stdout = None, stderr = Some (Traceback IndexError), status = 1\<rparr> \<and>
   str_split ''\<newline>\<newline>''
       ''Jane Roe\<newline>2 Oak Ave\<newline>Suite 5\<newline>Portland, OR 97201\<newline>\<newline>''
     = [''Jane Roe\<newline>2 Oak Ave\<newline>Suite 5\<newline>Portland, OR 97201'', ''''] \<and>
   malformed_entry ''''"
  using malformed_plain_text_fails
    [of "''b.txt''" "[''a.xml'', ''b.txt'']"
        "\<lparr>xml_file = one_file ''a.xml''
            [[(''COMPANY'', Some ''Acme Corp''), (''STREET'', Some ''1 Main St''),
              (''CITY'', Some ''Springfield''), (''STATE'', Some ''IL''),
              (''POSTAL_CODE'', Some ''62701'')]],
          tsv_file = no_file,
          txt_file = one_file ''b.txt''
            ''Jane Roe\<newline>2 Oak Ave\<newline>Suite 5\<newline>Portland OR 97201''\<rparr>"
        "''Jane Roe\<newline>2 Oak Ave\<newline>Suite 5\<newline>Portland OR 97201''"
        "''Jane Roe\<newline>2 Oak Ave\<newline>Suite 5\<newline>Portland OR 97201''"]
    malformed_plain_text_fails
    [of "''b.txt''" "[''b.txt'']"
        "\<lparr>xml_file = no_file, tsv_file = no_file,
          txt_file = one_file ''b.txt'' ''Jane Roe\<newline>2 Oak Ave\<newline>Portland, OR 97201''\<rparr>"
        "''Jane Roe\<newline>2 Oak Ave\<newline>Portland, OR 97201''"
        "''Jane Roe\<newline>2 Oak Ave\<newline>Portland, OR 97201''"]
    malformed_plain_text_fails
    [of "''b.txt''" "[''b.txt'']"
        "\<lparr>xml_file = no_file, tsv_file = no_file,
          txt_file = one_file ''b.txt''
            ''Jane Roe\<newline>2 Oak Ave\<newline>Suite 5\<newline>Portland, OR 97201\<newline>\<newline>''\<rparr>"
        "''Jane Roe\<newline>2 Oak Ave\<newline>Suite 5\<newline>Portland, OR 97201\<newline>\<newline>''"
        "''''"]
  by (simp add: run_defs malformed_entry_def)

subsection \<open>Unsupported extensions\<close>

text \<open>
  C7. When one of the paths ends in none of \<open>.xml\<close>, \<open>.tsv\<close> and \<open>.txt\<close>, the run writes to
  the error stream, exits with a status that is not zero and writes nothing to the
  standard output.
\<close>

theorem unsupported_extension:
  assumes "f \<in> set fnames" and "\<not> str_endswith f ''.xml''" and "\<not> str_endswith f ''.tsv''"
    and "\<not> str_endswith f ''.txt''"
  shows "stderr (main fs fnames) \<noteq> None \<and> status (main fs fnames) \<noteq> 0 \<and>
         stdout (main fs fnames) = None"
proof -
  have "read_file fs f = Inl (Unsupported f)" using assms(2-4) by (rule unsupported_aborts)
  with assms(1) obtain ab where "read_files fs [] fnames = Inl ab"
    using read_files_fails by blast
  from main_aborted[OF this] show ?thesis by simp
qed

text \<open>The run on \<open>report.pdf\<close> alone: the message of line 124 and the exit status 1.\<close>

theorem unsupported_extension_witness:
  "''report.pdf'' \<in> set [''report.pdf''] \<and>
   \<not> str_endswith ''report.pdf'' ''.xml'' \<and> \<not> str_endswith ''report.pdf'' ''.tsv'' \<and>
   \<not> str_endswith ''report.pdf'' ''.txt'' \<and>
   main \<lparr>xml_file = no_file, tsv_file = no_file, txt_file = no_file\<rparr> [''report.pdf'']
     = \<lparr>stdout = None,
        stderr = Some (Message ''Error: Unsupported file format report.pdf''),
        status = 1\<rparr>"
  using unsupported_extension
    [of "''report.pdf''" "[''report.pdf'']"
        "\<lparr>xml_file = no_file, tsv_file = no_file, txt_file = no_file\<rparr>"]
  by (simp add: run_defs)

subsection \<open>The name of a tabular record\<close>

text \<open>
  C8. The record of a tabular row has the \<open>name\<close> made of the trimmed \<open>first\<close>, one space
  and the trimmed \<open>last\<close> exactly when one of the two is not empty after trimming; when both
  are, it has no \<open>name\<close> at all.
\<close>

theorem tabular_name:
  assumes "map_of row ''first'' = Some (Some f)" and "map_of row ''last'' = Some (Some l)"
    and "tsv_address row = Inr a"
  shows "(map_of a ''name'' = Some (str_strip f @ '' '' @ str_strip l) \<longleftrightarrow>
            str_strip f \<noteq> [] \<or> str_strip l \<noteq> []) \<and>
         (str_strip f = [] \<and> str_strip l = [] \<longrightarrow> map_of a ''name'' = None)"
proof -
  have f: "row_strip row ''first'' = Inr (str_strip f)"
    and l: "row_strip row ''last'' = Inr (str_strip l)"
    using assms(1,2) by (simp_all add: row_strip_def dict_get_def)
  from assms(3) show ?thesis
  proof (rule tsv_address_Inr)
    fix organization street city state zip_code first_name last_name
    assume "row_strip row ''first'' = Inr first_name"
      and "row_strip row ''last'' = Inr last_name"
      and a: "a = (if first_name \<noteq> [] \<or> last_name \<noteq> []
          then [(''organization'', organization), (''street'', street), (''city'', city),
                (''state'', state), (''zip'', zip_code),
                (''name'', first_name @ '' '' @ last_name)]
          else [(''organization'', organization), (''street'', street), (''city'', city),
                (''state'', state), (''zip'', zip_code)])"
    then have "first_name = str_strip f" and "last_name = str_strip l"
      using f l by simp_all
    then show ?thesis using a by (simp split: if_splits)
  qed
qed

text \<open>A row that names a person, and a row whose \<open>first\<close> and \<open>last\<close> are blank.\<close>

theorem tabular_name_witness:
  "tsv_address [(''first'', Some '' John''), (''last'', Some ''Doe ''),
       (''organization'', Some ''''), (''address'', Some ''3 Elm Rd''), (''city'', Some ''Salem''),
       (''state'', Some ''OR''), (''zip'', Some ''97301'')]
     = Inr [(''organization'', ''''), (''street'', ''3 Elm Rd''), (''city'', ''Salem''),
            (''state'', ''OR''), (''zip'', ''97301''), (''name'', ''John Doe'')] \<and>
   str_strip '' John'' @ '' '' @ str_strip ''Doe '' = ''John Doe'' \<and>
   tsv_address [(''first'', Some '' ''), (''last'', Some ''''),
       (''organization'', Some ''Acme Corp''), (''address'', Some ''1 Main St''),
       (''city'', Some ''Springfield''), (''state'', Some ''IL''), (''zip'', Some ''62701'')]
     = Inr [(''organization'', ''Acme Corp''), (''street'', ''1 Main St''),
            (''city'', ''Springfield''), (''state'', ''IL''), (''zip'', ''62701'')] \<and>
   str_strip '' '' = [] \<and> str_strip '''' = []"
  using tabular_name
    [of "[(''first'', Some '' John''), (''last'', Some ''Doe ''),
          (''organization'', Some ''''), (''address'', Some ''3 Elm Rd''), (''city'', Some ''Salem''),
          (''state'', Some ''OR''), (''zip'', Some ''97301'')]"
        "'' John''" "''Doe ''"
        "[(''organization'', ''''), (''street'', ''3 Elm Rd''), (''city'', ''Salem''),
          (''state'', ''OR''), (''zip'', ''97301''), (''name'', ''John Doe'')]"]
    tabular_name
    [of "[(''first'', Some '' ''), (''last'', Some ''''),
          (''organization'', Some ''Acme Corp''), (''address'', Some ''1 Main St''),
          (''city'', Some ''Springfield''), (''state'', Some ''IL''), (''zip'', Some ''62701'')]"
        "'' ''" "''''"
        "[(''organization'', ''Acme Corp''), (''street'', ''1 Main St''),
          (''city'', ''Springfield''), (''state'', ''IL''), (''zip'', ''62701'')]"]
  by (simp add: run_defs)

subsection \<open>The four address fields\<close>

text \<open>
  C9, as amended. Every record of the output has \<open>street\<close>, \<open>city\<close>, \<open>state\<close> and \<open>zip\<close>;
  the first three have no leading or trailing white space and \<open>zip\<close> has no leading white
  space. The \<open>zip\<close> of a tabular or plain-text record has no trailing white space either.
  The \<open>zip\<close> of a markup record has no trailing white space exactly when the trimmed
  \<open>POSTAL_CODE\<close>, without the occurrences of \<open>" -"\<close> at its end, is empty or ends in a
  character that is not white space; this is so whenever the trimmed \<open>POSTAL_CODE\<close> does
  not end in \<open>" -"\<close>.
\<close>

theorem required_fields_trimmed:
  "(stdout (main fs fnames) = Some out \<and> a \<in> set out \<longrightarrow> required_fields a) \<and>
   (tsv_address row = Inr b \<longrightarrow> trimmed (zip_of b)) \<and>
   (txt_address entry = Inr c \<longrightarrow> trimmed (zip_of c)) \<and>
   (parse_address ent = Inr d \<and> map_of ent ''POSTAL_CODE'' = Some postal \<longrightarrow>
      (trimmed (zip_of d) \<longleftrightarrow>
         without_final_hits (str_strip postal) = [] \<or>
         \<not> isspace (last (without_final_hits (str_strip postal)))) \<and>
      (\<not> str_endswith (str_strip postal) '' -'' \<longrightarrow> trimmed (zip_of d)))"
proof (intro conjI impI)
  assume "stdout (main fs fnames) = Some out \<and> a \<in> set out"
  then have "(\<exists>ent. parse_address (xml_entry ent) = Inr a) \<or>
         (\<exists>row. tsv_address row = Inr a) \<or> (\<exists>entry. txt_address entry = Inr a)"
    using output_origin by blast
  then show "required_fields a"
    using markup_required tabular_required plain_required by blast
next
  assume "tsv_address row = Inr b"
  then show "trimmed (zip_of b)" using tabular_required by blast
next
  assume "txt_address entry = Inr c"
  then show "trimmed (zip_of c)" using plain_required by blast
next
  assume h: "parse_address ent = Inr d \<and> map_of ent ''POSTAL_CODE'' = Some postal"
  then obtain postal' where "map_of ent ''POSTAL_CODE'' = Some postal'"
    and z: "map_of d ''zip'' = Some (str_replace '' -'' [] (str_strip postal'))"
    using parse_address_fields[of ent d] by metis
  then have "postal' = postal" using h by simp
  then have zd: "zip_of d = str_replace '' -'' [] (str_strip postal)"
    using zip_of_eq[OF z] by simp
  show iff: "trimmed (zip_of d) \<longleftrightarrow>
         without_final_hits (str_strip postal) = [] \<or>
         \<not> isspace (last (without_final_hits (str_strip postal)))"
    unfolding zd by (rule markup_zip_trimmed)
  assume "\<not> str_endswith (str_strip postal) '' -''"
  then have "without_final_hits (str_strip postal) = str_strip postal"
    by (rule without_final_hits_same)
  moreover have "str_strip postal = [] \<or> \<not> isspace (last (str_strip postal))"
    using trimmed_strip[of postal] by (auto simp: trimmed_def)
  ultimately show "trimmed (zip_of d)" using iff by simp
qed

text \<open>
  A run over one tabular file, the tabular and the plain-text reader on one record each,
  and the markup reader on three postal codes: \<open>" 12345 -6789 "\<close>, which does not end in
  \<open>" -"\<close> once trimmed; \<open>"12345 -"\<close>, which does and leaves \<open>"12345"\<close>; and \<open>"12345  -"\<close>, which
  leaves \<open>"12345 "\<close>.
\<close>

theorem required_fields_trimmed_witness:
  "stdout (main \<lparr>xml_file = no_file,
                  tsv_file = one_file ''people.tsv''
                    [[''first'', ''last'', ''organization'', ''address'', ''city'', ''state'',
                      ''zip''],
                     [''John'', ''Doe'', '''', '' 3 Elm Rd '', ''Salem'', ''OR'', '' 97301 '']],
                  txt_file = no_file\<rparr> [''people.tsv''])
     = Some [[(''organization'', ''''), (''street'', ''3 Elm Rd''), (''city'', ''Salem''),
              (''state'', ''OR''), (''zip'', ''97301''), (''name'', ''John Doe'')]] \<and>
   required_fields [(''organization'', ''''), (''street'', ''3 Elm Rd''), (''city'', ''Salem''),
              (''state'', ''OR''), (''zip'', ''97301''), (''name'', ''John Doe'')] \<and>
   tsv_address [(''first'', Some ''John''), (''last'', Some ''Doe''), (''organization'', Some ''''),
       (''address'', Some '' 3 Elm Rd ''), (''city'', Some ''Salem''), (''state'', Some ''OR''),
       (''zip'', Some '' 97301 '')]
     = Inr [(''organization'', ''''), (''street'', ''3 Elm Rd''), (''city'', ''Salem''),
            (''state'', ''OR''), (''zip'', ''97301''), (''name'', ''John Doe'')] \<and>
   txt_address ''Jane Roe\<newline>2 Oak Ave\<newline>Suite 5\<newline>Portland, OR 97201''
     = Inr [(''name'', ''Jane Roe''), (''street'', ''2 Oak Ave''), (''city'', ''Portland''),
            (''state'', ''OR''), (''zip'', ''97201'')] \<and>
   trimmed ''97301'' \<and> trimmed ''97201'' \<and>
   parse_address [(''STREET'', ''1 Main St''), (''CITY'', ''Springfield''), (''STATE'', ''IL''),
       (''POSTAL_CODE'', '' 12345 -6789 '')]
     = Inr [(''street'', ''1 Main St''), (''city'', ''Springfield''), (''state'', ''IL''),
            (''zip'', ''123456789'')] \<and>
   \<not> str_endswith (str_strip '' 12345 -6789 '') '' -'' \<and> trimmed ''123456789'' \<and>
   parse_address [(''STREET'', ''1 Main St''), (''CITY'', ''Springfield''), (''STATE'', ''IL''),
       (''POSTAL_CODE'', ''12345 -'')]
     = Inr [(''street'', ''1 Main St''), (''city'', ''Springfield''), (''state'', ''IL''),
            (''zip'', ''12345'')] \<and>
   without_final_hits (str_strip ''12345 -'') = ''12345'' \<and> trimmed ''12345'' \<and>
   parse_address [(''STREET'', ''1 Main St''), (''CITY'', ''Springfield''), (''STATE'', ''IL''),
       (''POSTAL_CODE'', ''12345  -'')]
     = Inr [(''street'', ''1 Main St''), (''city'', ''Springfield''), (''state'', ''IL''),
            (''zip'', ''12345 '')] \<and>
   without_final_hits (str_strip ''12345  -'') = ''12345 '' \<and> \<not> trimmed ''12345 ''"
  using required_fields_trimmed
    [of "\<lparr>xml_file = no_file,
          tsv_file = one_file ''people.tsv''
            [[''first'', ''last'', ''organization'', ''address'', ''city'', ''state'', ''zip''],
             [''John'', ''Doe'', '''', '' 3 Elm Rd '', ''Salem'', ''OR'', '' 97301 '']],
          txt_file = no_file\<rparr>"
        "[''people.tsv'']"
        "[[(''organization'', ''''), (''street'', ''3 Elm Rd''), (''city'', ''Salem''),
           (''state'', ''OR''), (''zip'', ''97301''), (''name'', ''John Doe'')]]"
        "[(''organization'', ''''), (''street'', ''3 Elm Rd''), (''city'', ''Salem''),
          (''state'', ''OR''), (''zip'', ''97301''), (''name'', ''John Doe'')]"
        "[(''first'', Some ''John''), (''last'', Some ''Doe''), (''organization'', Some ''''),
          (''address'', Some '' 3 Elm Rd ''), (''city'', Some ''Salem''), (''state'', Some ''OR''),
          (''zip'', Some '' 97301 '')]"
        "[(''organization'', ''''), (''street'', ''3 Elm Rd''), (''city'', ''Salem''),
          (''state'', ''OR''), (''zip'', ''97301''), (''name'', ''John Doe'')]"
        "''Jane Roe\<newline>2 Oak Ave\<newline>Suite 5\<newline>Portland, OR 97201''"
        "[(''name'', ''Jane Roe''), (''street'', ''2 Oak Ave''), (''city'', ''Portland''),
          (''state'', ''OR''), (''zip'', ''97201'')]"
        "[(''STREET'', ''1 Main St''), (''CITY'', ''Springfield''), (''STATE'', ''IL''),
          (''POSTAL_CODE'', '' 12345 -6789 '')]"
        "[(''street'', ''1 Main St''), (''city'', ''Springfield''), (''state'', ''IL''),
          (''zip'', ''123456789'')]"
        "'' 12345 -6789 ''"]
    required_fields_trimmed
    [where ent = "[(''STREET'', ''1 Main St''), (''CITY'', ''Springfield''), (''STATE'', ''IL''),
          (''POSTAL_CODE'', ''12345 -'')]"
       and d = "[(''street'', ''1 Main St''), (''city'', ''Springfield''), (''state'', ''IL''),
          (''zip'', ''12345'')]"
       and postal = "''12345 -''"]
    required_fields_trimmed
    [where ent = "[(''STREET'', ''1 Main St''), (''CITY'', ''Springfield''), (''STATE'', ''IL''),
          (''POSTAL_CODE'', ''12345  -'')]"
       and d = "[(''street'', ''1 Main St''), (''city'', ''Springfield''), (''state'', ''IL''),
          (''zip'', ''12345 '')]"
       and postal = "''12345  -''"]
  by (simp add: run_defs required_fields_def trimmed_def no_leading_space_def
        without_final_hits_def)

text \<open>
  C9 as stated fails: the markup postal code \<open>"12345  -"\<close> is trimmed first and loses its
  \<open>" -"\<close> afterwards, which leaves the \<open>zip\<close> \<open>"12345 "\<close>, ending in a space.
\<close>

theorem zip_trailing_space_counterexample:
  "stdout (main \<lparr>xml_file = one_file ''a.xml''
                    [[(''COMPANY'', Some ''Acme Corp''), (''STREET'', Some ''1 Main St''),
                      (''CITY'', Some ''Springfield''), (''STATE'', Some ''IL''),
                      (''POSTAL_CODE'', Some ''12345  -'')]],
                  tsv_file = no_file, txt_file = no_file\<rparr> [''a.xml''])
   = Some [[(''organization'', ''Acme Corp''), (''street'', ''1 Main St''),
            (''city'', ''Springfield''), (''state'', ''IL''), (''zip'', ''12345 '')]] \<and>
   \<not> trimmed ''12345 ''"
  by (simp add: run_defs trimmed_def)

subsection \<open>A blank COMPANY element\<close>

text \<open>
  C10. An entry without a \<open>NAME\<close> that is not blank, whose \<open>COMPANY\<close> text is not empty
  and is white space only, and which has the four address fields, gives a record with the
  \<open>organization\<close> \<open>""\<close> and no \<open>name\<close>.
\<close>

theorem blank_company_is_empty_organization:
  assumes "(''COMPANY'', Some c) \<in> set ent" and "c \<noteq> []"
    and "\<forall>t. (''COMPANY'', Some t) \<in> set ent \<longrightarrow> (\<forall>x \<in> set t. isspace x)"
    and "\<forall>n. (''NAME'', Some n) \<in> set ent \<longrightarrow> str_strip n = []"
    and "\<forall>k \<in> set [''STREET'', ''CITY'', ''STATE'', ''POSTAL_CODE''].
           \<exists>v. (k, Some v) \<in> set ent \<and> v \<noteq> []"
  shows "\<exists>a. parse_address (xml_entry ent) = Inr a \<and>
           map_of a ''organization'' = Some [] \<and> map_of a ''name'' = None"
proof -
  define e where "e = xml_entry ent"
  have "map_of e ''COMPANY'' \<noteq> None"
    unfolding e_def using assms(1,2) by (rule xml_entry_present)
  then obtain c' where c': "map_of e ''COMPANY'' = Some c'" by auto
  then have "(''COMPANY'', Some c') \<in> set ent" unfolding e_def using xml_entry_Some by blast
  then have "\<forall>x \<in> set c'. isspace x" using assms(3) by blast
  then have blank: "str_strip c' = []" by (simp add: strip_eq_Nil)
  have nn: "\<not> has_name e"
  proof (cases "map_of e ''NAME''")
    case None then show ?thesis by (simp add: has_name_def)
  next
    case (Some n)
    then have "(''NAME'', Some n) \<in> set ent" unfolding e_def using xml_entry_Some by blast
    then have "str_strip n = []" using assms(4) by blast
    then show ?thesis using Some by (simp add: has_name_def)
  qed
  have present: "map_of e k \<noteq> None"
    if "k \<in> set [''STREET'', ''CITY'', ''STATE'', ''POSTAL_CODE'']" for k
    unfolding e_def using assms(5) that xml_entry_present by blast
  obtain street city state postal where
    "map_of e ''STREET'' = Some street" "map_of e ''CITY'' = Some city"
    "map_of e ''STATE'' = Some state" "map_of e ''POSTAL_CODE'' = Some postal"
    using present[of "''STREET''"] present[of "''CITY''"] present[of "''STATE''"]
      present[of "''POSTAL_CODE''"] by auto
  then obtain a where a: "parse_address e = Inr a" using parse_address_total by blast
  then obtain a0 where a0: "parse_name e = Inr a0"
    and n: "map_of a ''name'' = map_of a0 ''name''"
    and o: "map_of a ''organization'' = map_of a0 ''organization''"
    using parse_address_fields[of e a] by metis
  have "a0 = [(''organization'', [])]"
    using parse_name_unnamed[OF nn] a0 c' blank by simp
  then have "map_of a ''organization'' = Some [] \<and> map_of a ''name'' = None"
    using n o by simp
  then show ?thesis using a unfolding e_def by blast
qed

text \<open>An entry whose \<open>COMPANY\<close> is two spaces and whose \<open>NAME\<close> element is empty.\<close>

theorem blank_company_is_empty_organization_witness:
  "parse_address (xml_entry [(''NAME'', None), (''COMPANY'', Some ''  ''),
       (''STREET'', Some ''1 Main St''), (''CITY'', Some ''Springfield''),
       (''STATE'', Some ''IL''), (''POSTAL_CODE'', Some ''62701'')])
     = Inr [(''organization'', ''''), (''street'', ''1 Main St''),
            (''city'', ''Springfield''), (''state'', ''IL''), (''zip'', ''62701'')]"
  using blank_company_is_empty_organization
    [of "''  ''" "[(''NAME'', None), (''COMPANY'', Some ''  ''),
       (''STREET'', Some ''1 Main St''), (''CITY'', Some ''Springfield''),
       (''STATE'', Some ''IL''), (''POSTAL_CODE'', Some ''62701'')]"]
  by (simp add: run_defs)

end
